theory Spec2Isabelle
  imports Main "HOL-Library.Word"
begin

section \<open>Data model\<close>

text \<open>
  Buffers are byte sequences.  Scalars are the unbounded integers of the big-integer
  library (\<open>bigi\<close>), modelled as \<open>int\<close>.
\<close>

type_synonym byte = "8 word"
type_synonym buffer = "byte list"

text \<open>
  The failures of the module.  All assertions of the source raise an assertion error;
  the constructors keep the spec's taxonomy and name the assertion they stand for:
  \<^item> \<open>InputValidation\<close>: "Hash must be 256 bit", "Recovery param is more than two bits",
    "Invalid r value", "Invalid s value";
  \<^item> \<open>RecoveryFailure\<close>: "nR is not a valid curve point";
  \<^item> \<open>InvalidCurvePoint\<close>: raised inside \<open>curve.pointFromX\<close> or \<open>curve.validate\<close>;
  \<^item> \<open>RecoveryNotFound\<close>: "Unable to find valid recovery factor";
  \<^item> \<open>RangeError\<close>: \<open>Buffer.alloc\<close> called with a negative size;
  \<^item> \<open>TypeError\<close>: a method called on an undefined variable.
\<close>

datatype error =
    InputValidation
  | InvalidCurvePoint
  | RecoveryFailure
  | RecoveryNotFound
  | RangeError
  | TypeError

text \<open>
  Modelled from the spec: the class \<open>ECSignature\<close> (\<open>./ecsignature\<close>) is not among the
  sources; \<open>new ECSignature(r, s)\<close> builds the Signature of section 3, the pair \<open>(r, s)\<close>.
\<close>

record ECSignature =
  sig_r :: int
  sig_s :: int

text \<open>
  The hash module (\<open>./hash\<close>) is not among the sources; it wraps the SHA-256 and
  HMAC-SHA-256 of an external library.  Its two functions are parameters of the model.
  \<open>HmacSHA256 data secret\<close> has the argument order of the calls in the source: the data
  first, the key second.
\<close>

record hashes =
  sha256 :: "buffer \<Rightarrow> buffer"
  HmacSHA256 :: "buffer \<Rightarrow> buffer \<Rightarrow> buffer"

text \<open>
  The elliptic-curve object is an external collaborator (\<open>ecurve\<close>); the model takes its
  operations as a parameter over a point type \<open>'p\<close>:
  \<open>curve.n\<close>, \<open>curve.G\<close>, \<open>curve.isInfinity(P)\<close>, \<open>P.affineX\<close>, \<open>P.multiply(k)\<close>,
  \<open>P.multiplyTwo(j, Q, k)\<close> (computing \<open>j\<cdot>P + k\<cdot>Q\<close>), \<open>curve.pointFromX(isOdd, x)\<close>
  (\<open>None\<close> when it throws), \<open>curve.validate(Q)\<close> (\<open>False\<close> when it throws) and
  \<open>P.equals(Q)\<close>.  The fields \<open>n\<close> and \<open>G\<close> are named \<open>curve_n\<close> and \<open>curve_G\<close>, and
  \<open>equals\<close> is named \<open>pt_equals\<close>.
\<close>

record 'p curve =
  curve_n :: int
  curve_G :: 'p
  isInfinity :: "'p \<Rightarrow> bool"
  affineX :: "'p \<Rightarrow> int"
  multiply :: "'p \<Rightarrow> int \<Rightarrow> 'p"
  multiplyTwo :: "'p \<Rightarrow> int \<Rightarrow> 'p \<Rightarrow> int \<Rightarrow> 'p"
  pointFromX :: "bool \<Rightarrow> int \<Rightarrow> 'p option"
  validate :: "'p \<Rightarrow> bool"
  pt_equals :: "'p \<Rightarrow> 'p \<Rightarrow> bool"

section \<open>Big-integer operations used by the module\<close>

text \<open>
  Modelled from the spec: the big-integer library (\<open>bigi\<close>) is an external collaborator
  (section 6: modular arithmetic, modular inverse, comparison, sign test, bit shift,
  32-byte big-endian encoding and decoding).  The definitions of this section give the
  operations that the module calls, on \<open>int\<close>; \<open>signum\<close> and \<open>compareTo\<close> are written as
  comparisons where they are used.

  \<open>BigInteger.fromBuffer\<close>: the buffer read as an unsigned big-endian integer.
\<close>

definition fromBuffer :: "buffer \<Rightarrow> int" where
  "fromBuffer b = foldl (\<lambda>acc x. acc * 256 + uint x) 0 b"

text \<open>
  \<open>toByteArray\<close>: the minimal two's-complement big-endian bytes of an integer;
  \<open>toByteArrayUnsigned\<close> drops one leading zero byte; \<open>toBuffer(size)\<close> pads on the left
  with zero bytes up to \<open>size\<close> (and does not truncate a longer array).
\<close>

function toByteArray :: "int \<Rightarrow> buffer" where
  "toByteArray d =
     (if - 128 \<le> d \<and> d < 128 then [word_of_int d]
      else toByteArray (d div 256) @ [word_of_int (d mod 256)])"
  by pat_completeness auto
termination
  by (relation "measure (\<lambda>d. nat \<bar>d\<bar>)") auto

definition toByteArrayUnsigned :: "int \<Rightarrow> buffer" where
  "toByteArrayUnsigned d =
     (let byteArray = toByteArray d
      in if hd byteArray = 0 then tl byteArray else byteArray)"

definition toBuffer :: "int \<Rightarrow> nat \<Rightarrow> buffer" where
  "toBuffer d sz =
     (let byteArray = toByteArrayUnsigned d
      in replicate (sz - length byteArray) 0 @ byteArray)"

text \<open>
  \<open>a.mod(m)\<close>: the remainder of \<open>|a|\<close> by \<open>|m|\<close>, replaced by \<open>m - r\<close> when \<open>a\<close> is
  negative and the remainder \<open>r\<close> is positive.
\<close>

definition bn_mod :: "int \<Rightarrow> int \<Rightarrow> int" where
  "bn_mod a m =
     (let r = \<bar>a\<bar> mod \<bar>m\<bar>
      in if a < 0 \<and> 0 < r then m - r else r)"

text \<open>
  \<open>a.modInverse(m)\<close>: the inverse of \<open>a\<close> modulo \<open>m\<close> in \<open>[0, m)\<close>, and zero when \<open>a\<close> has
  no inverse.  It is computed by the extended Euclidean algorithm: the loop keeps
  \<open>t0 \<cdot> a \<equiv> r0\<close> and \<open>t1 \<cdot> a \<equiv> r1\<close> modulo \<open>m\<close> and ends with \<open>r0 = gcd a m\<close>.
\<close>

function modInverse_loop :: "int \<Rightarrow> int \<Rightarrow> int \<Rightarrow> int \<Rightarrow> int \<times> int" where
  "modInverse_loop r0 r1 t0 t1 =
     (if r1 \<le> 0 then (r0, t0)
      else modInverse_loop r1 (r0 mod r1) t1 (t0 - (r0 div r1) * t1))"
  by pat_completeness auto
termination
  by (relation "measure (\<lambda>(r0, r1, t0, t1). nat r1)") auto

definition modInverse :: "int \<Rightarrow> int \<Rightarrow> int" where
  "modInverse a m =
     (if m \<le> 1 then 0
      else case modInverse_loop m (a mod m) 0 1 of
             (g, t) \<Rightarrow> if g = 1 then t mod m else 0)"

text \<open>\<open>n.shiftRight(1)\<close>, an arithmetic shift.\<close>

definition shiftRight1 :: "int \<Rightarrow> int" where
  "shiftRight1 a = a div 2"

section \<open>The nonce generator\<close>

text \<open>
  \<open>rekey\<close> is the body of the \<open>while\<close> loop of \<open>deterministicGenerateK\<close> up to the new
  \<open>v\<close>: \<open>k = HmacSHA256(v \<parallel> [0], k)\<close>, \<open>v = HmacSHA256(v, k)\<close>, \<open>v = HmacSHA256(v, k)\<close>.
\<close>

definition rekey :: "hashes \<Rightarrow> buffer \<times> buffer \<Rightarrow> buffer \<times> buffer" where
  "rekey H kv =
     (let k = fst kv; v = snd kv;
          k1 = HmacSHA256 H (v @ [0]) k;
          v1 = HmacSHA256 H v k1;
          v2 = HmacSHA256 H v1 k1
      in (k1, v2))"

text \<open>
  The \<open>while\<close> loop (Step H3).  The callback \<open>checkSig\<close> of the source is a closure that
  assigns to variables of its caller; the model threads that state \<open>st\<close> through the
  calls.  The condition is evaluated left to right, so \<open>checkSig\<close> runs only on a \<open>T\<close>
  with \<open>0 < T < n\<close>.  A loop that never ends is the value \<open>None\<close>.
\<close>

partial_function (option) genK_loop ::
  "hashes \<Rightarrow> int \<Rightarrow> (int \<Rightarrow> 'st \<Rightarrow> bool \<times> 'st) \<Rightarrow> buffer \<times> buffer \<Rightarrow> 'st \<Rightarrow> (int \<times> 'st) option"
where
  "genK_loop H n checkSig kv st =
     (let T = fromBuffer (snd kv)
      in if T \<le> 0 \<or> n \<le> T then genK_loop H n checkSig (rekey H kv) st
         else let res = checkSig T st
              in if \<not> fst res then genK_loop H n checkSig (rekey H kv) (snd res)
                 else Some (T, snd res))"

declare genK_loop.simps [code]

text \<open>
  \<open>deterministicGenerateK(curve, hash, d, checkSig, nonce)\<close>.  \<open>nonce_hash\<close> is its first
  statement, \<open>if (nonce) hash = sha256(Buffer.concat([hash, Buffer.alloc(nonce)]))\<close>: the
  optional \<open>nonce\<close> is \<open>None\<close> when omitted, the branch is taken for every non-zero
  number, and \<open>Buffer.alloc\<close> raises a range error on a negative size (the platform's
  upper limit on the size of a buffer is not modelled).  The outer \<open>option\<close> of the result
  is \<open>None\<close> when the loop never ends.
\<close>

definition nonce_hash :: "hashes \<Rightarrow> buffer \<Rightarrow> int option \<Rightarrow> error + buffer" where
  "nonce_hash H hash nonce =
     (case nonce of
        None \<Rightarrow> Inr hash
      | Some m \<Rightarrow>
          if m = 0 then Inr hash
          else if m < 0 then Inl RangeError
          else Inr (sha256 H (hash @ replicate (nat m) 0)))"

definition deterministicGenerateK ::
  "hashes \<Rightarrow> 'p curve \<Rightarrow> buffer \<Rightarrow> int \<Rightarrow> (int \<Rightarrow> 'st \<Rightarrow> bool \<times> 'st) \<Rightarrow> int option \<Rightarrow> 'st
     \<Rightarrow> (error + int \<times> 'st) option"
where
  "deterministicGenerateK H C hash d checkSig nonce st =
     (case nonce_hash H hash nonce of
        Inl err \<Rightarrow> Some (Inl err)
      | Inr hash \<Rightarrow>
          if length hash \<noteq> 32 then Some (Inl InputValidation)
          else
            let x = toBuffer d 32;
                k = replicate 32 (0::byte);
                v = replicate 32 (1::byte);
                k = HmacSHA256 H (v @ [0] @ x @ hash) k;
                v = HmacSHA256 H v k;
                k = HmacSHA256 H (v @ [1] @ x @ hash) k;
                v = HmacSHA256 H v k;
                v = HmacSHA256 H v k
            in map_option Inr (genK_loop H (curve_n C) checkSig (k, v) st))"

text \<open>
  The pair \<open>(k, v)\<close> with which \<open>deterministicGenerateK\<close> enters its \<open>while\<close> loop, for a
  digest \<open>hash\<close> that has passed the length check (Steps B to G and the first \<open>v\<close> of
  Step H), and the candidate \<open>T\<close> that the loop examines after \<open>m\<close> rounds of re-keying.
\<close>

definition genK_start :: "hashes \<Rightarrow> buffer \<Rightarrow> int \<Rightarrow> buffer \<times> buffer" where
  "genK_start H hash d =
     (let x = toBuffer d 32;
          k = replicate 32 (0::byte);
          v = replicate 32 (1::byte);
          k = HmacSHA256 H (v @ [0] @ x @ hash) k;
          v = HmacSHA256 H v k;
          k = HmacSHA256 H (v @ [1] @ x @ hash) k;
          v = HmacSHA256 H v k;
          v = HmacSHA256 H v k
      in (k, v))"

definition genK_candidate :: "hashes \<Rightarrow> buffer \<Rightarrow> int \<Rightarrow> nat \<Rightarrow> int" where
  "genK_candidate H hash d m = fromBuffer (snd ((rekey H ^^ m) (genK_start H hash d)))"

section \<open>The signature engine\<close>

text \<open>
  The variables \<open>r\<close> and \<open>s\<close> of \<open>sign\<close>, declared without a value and assigned by the
  callback.
\<close>

record sign_vars =
  var_r :: "int option"
  var_s :: "int option"

text \<open>The callback that \<open>sign\<close> passes to \<open>deterministicGenerateK\<close>.\<close>

definition sign_checkSig :: "'p curve \<Rightarrow> int \<Rightarrow> int \<Rightarrow> int \<Rightarrow> sign_vars \<Rightarrow> bool \<times> sign_vars" where
  "sign_checkSig C e d k st =
     (let n = curve_n C;
          Q = multiply C (curve_G C) k
      in if isInfinity C Q then (False, st)
         else
           let r = bn_mod (affineX C Q) n;
               st = st\<lparr>var_r := Some r\<rparr>
           in if r = 0 then (False, st)
              else
                let s = bn_mod (modInverse k n * (e + d * r)) n;
                    st = st\<lparr>var_s := Some s\<rparr>
                in if s = 0 then (False, st) else (True, st))"

text \<open>
  The verdict of the callback on a candidate \<open>k\<close>.  It does not depend on the values that
  \<open>r\<close> and \<open>s\<close> hold when the callback is called.
\<close>

definition sign_accepts :: "'p curve \<Rightarrow> int \<Rightarrow> int \<Rightarrow> int \<Rightarrow> bool" where
  "sign_accepts C e d k = fst (sign_checkSig C e d k \<lparr>var_r = None, var_s = None\<rparr>)"

definition sign :: "hashes \<Rightarrow> 'p curve \<Rightarrow> buffer \<Rightarrow> int \<Rightarrow> int option \<Rightarrow> (error + ECSignature) option" where
  "sign H C hash d nonce =
     (let e = fromBuffer hash;
          n = curve_n C
      in case deterministicGenerateK H C hash d (sign_checkSig C e d) nonce
                \<lparr>var_r = None, var_s = None\<rparr> of
           None \<Rightarrow> None
         | Some (Inl err) \<Rightarrow> Some (Inl err)
         | Some (Inr (T, st)) \<Rightarrow>
             (case (var_r st, var_s st) of
                (Some r, Some s) \<Rightarrow>
                  let N_OVER_TWO = shiftRight1 n;
                      s = (if s > N_OVER_TWO then n - s else s)
                  in Some (Inr \<lparr>sig_r = r, sig_s = s\<rparr>)
              | _ \<Rightarrow> Some (Inl TypeError)))"

definition verifyRaw :: "'p curve \<Rightarrow> int \<Rightarrow> ECSignature \<Rightarrow> 'p \<Rightarrow> bool" where
  "verifyRaw C e signature Q =
     (let n = curve_n C;
          G = curve_G C;
          r = sig_r signature;
          s = sig_s signature
      in if r \<le> 0 \<or> n \<le> r then False
         else if s \<le> 0 \<or> n \<le> s then False
         else
           let c = modInverse s n;
               u1 = bn_mod (e * c) n;
               u2 = bn_mod (r * c) n;
               R = multiplyTwo C G u1 Q u2
           in if isInfinity C R then False
              else
                let xR = affineX C R;
                    v = bn_mod xR n
                in v = r)"

definition verify :: "'p curve \<Rightarrow> buffer \<Rightarrow> ECSignature \<Rightarrow> 'p \<Rightarrow> bool" where
  "verify C hash signature Q =
     (let e = fromBuffer hash in verifyRaw C e signature Q)"

section \<open>The recovery engine\<close>

text \<open>
  \<open>recoverPubKey(curve, e, signature, i)\<close>.  The recovery parameter is a number;
  \<open>i & 3 === i\<close> holds exactly for 0, 1, 2 and 3.
\<close>

definition recoverPubKey :: "'p curve \<Rightarrow> int \<Rightarrow> ECSignature \<Rightarrow> int \<Rightarrow> error + 'p" where
  "recoverPubKey C e signature i =
     (if and i 3 \<noteq> i then Inl InputValidation
      else
        let n = curve_n C;
            G = curve_G C;
            r = sig_r signature;
            s = sig_s signature
        in if \<not> (0 < r \<and> r < n) then Inl InputValidation
           else if \<not> (0 < s \<and> s < n) then Inl InputValidation
           else
             let isYOdd = (and i 1 \<noteq> 0);
                 isSecondKey = (drop_bit 1 i \<noteq> 0);
                 x = (if isSecondKey then r + n else r)
             in case pointFromX C isYOdd x of
                  None \<Rightarrow> Inl InvalidCurvePoint
                | Some R \<Rightarrow>
                    let nR = multiply C R n
                    in if \<not> isInfinity C nR then Inl RecoveryFailure
                       else
                         let eNeg = bn_mod (- e) n;
                             rInv = modInverse r n;
                             Q = multiply C (multiplyTwo C R s G eNeg) rInv
                         in if \<not> validate C Q then Inl InvalidCurvePoint
                            else Inr Q)"

text \<open>
  \<open>calcPubKeyRecoveryParam\<close>: the \<open>for\<close> loop over \<open>i = 0, 1, 2, 3\<close>, entered at \<open>i\<close>.
  An error raised by \<open>recoverPubKey\<close> is not caught and leaves the loop.
\<close>

function calcPubKeyRecoveryParam_from :: "'p curve \<Rightarrow> int \<Rightarrow> ECSignature \<Rightarrow> 'p \<Rightarrow> int \<Rightarrow> error + int" where
  "calcPubKeyRecoveryParam_from C e signature Q i =
     (if i < 4 then
        (case recoverPubKey C e signature i of
           Inl err \<Rightarrow> Inl err
         | Inr Qprime \<Rightarrow>
             if pt_equals C Qprime Q then Inr i
             else calcPubKeyRecoveryParam_from C e signature Q (i + 1))
      else Inl RecoveryNotFound)"
  by pat_completeness auto
termination
  by (relation "measure (\<lambda>(C, e, signature, Q, i). nat (4 - i))") auto

definition calcPubKeyRecoveryParam :: "'p curve \<Rightarrow> int \<Rightarrow> ECSignature \<Rightarrow> 'p \<Rightarrow> error + int" where
  "calcPubKeyRecoveryParam C e signature Q = calcPubKeyRecoveryParam_from C e signature Q 0"

section \<open>A small instance of the collaborators\<close>

text \<open>
  A concrete curve object over which the operations above can be evaluated: a short
  Weierstrass curve \<open>y\<^sup>2 = x\<^sup>3 + a x + b\<close> over the integers modulo a prime
  \<open>p \<equiv> 3 (mod 4)\<close>, in affine coordinates, with the scalar multiplications of the curve
  library (signed-digit double-and-add for \<open>multiply\<close>, simultaneous double-and-add for
  \<open>multiplyTwo\<close>) and its \<open>pointFromX\<close>, which takes a square root candidate without
  checking it.
\<close>

datatype wpoint = Infinity | Affine int int

record wparams =
  fld_p :: int
  coef_a :: int
  coef_b :: int
  base_x :: int
  base_y :: int
  ord_n :: int

definition w_isInfinity :: "wpoint \<Rightarrow> bool" where
  "w_isInfinity P = (case P of Infinity \<Rightarrow> True | Affine x y \<Rightarrow> False)"

definition w_affineX :: "wparams \<Rightarrow> wpoint \<Rightarrow> int" where
  "w_affineX E P = (case P of Infinity \<Rightarrow> 0 | Affine x y \<Rightarrow> x mod fld_p E)"

definition w_negate :: "wparams \<Rightarrow> wpoint \<Rightarrow> wpoint" where
  "w_negate E P = (case P of Infinity \<Rightarrow> Infinity | Affine x y \<Rightarrow> Affine x (fld_p E - y))"

definition w_twice :: "wparams \<Rightarrow> wpoint \<Rightarrow> wpoint" where
  "w_twice E P =
     (case P of
        Infinity \<Rightarrow> Infinity
      | Affine x y \<Rightarrow>
          let p = fld_p E
          in if y mod p = 0 then Infinity
             else
               let l = ((3 * x * x + coef_a E) * modInverse (2 * y) p) mod p;
                   x3 = (l * l - 2 * x) mod p
               in Affine x3 ((l * (x - x3) - y) mod p))"

definition w_add :: "wparams \<Rightarrow> wpoint \<Rightarrow> wpoint \<Rightarrow> wpoint" where
  "w_add E P Q =
     (case P of
        Infinity \<Rightarrow> Q
      | Affine x1 y1 \<Rightarrow>
          (case Q of
             Infinity \<Rightarrow> P
           | Affine x2 y2 \<Rightarrow>
               let p = fld_p E
               in if (x2 - x1) mod p = 0
                  then (if (y2 - y1) mod p = 0 then w_twice E P else Infinity)
                  else
                    let l = ((y2 - y1) * modInverse (x2 - x1) p) mod p;
                        x3 = (l * l - x1 - x2) mod p
                    in Affine x3 ((l * (x1 - x3) - y1) mod p)))"

function bitLength :: "int \<Rightarrow> nat" where
  "bitLength j = (if j \<le> 0 then 0 else Suc (bitLength (j div 2)))"
  by pat_completeness auto
termination
  by (relation "measure nat") auto

definition testBit :: "int \<Rightarrow> nat \<Rightarrow> bool" where
  "testBit j i = odd (j div 2 ^ i)"

fun w_multiply_loop :: "wparams \<Rightarrow> wpoint \<Rightarrow> int \<Rightarrow> int \<Rightarrow> nat \<Rightarrow> wpoint \<Rightarrow> wpoint" where
  "w_multiply_loop E P e h 0 R = R"
| "w_multiply_loop E P e h (Suc i) R =
     (let hBit = testBit h (Suc i);
          eBit = testBit e (Suc i);
          R = w_twice E R;
          R = (if hBit \<noteq> eBit then w_add E R (if hBit then P else w_negate E P) else R)
      in w_multiply_loop E P e h i R)"

definition w_multiply :: "wparams \<Rightarrow> wpoint \<Rightarrow> int \<Rightarrow> wpoint" where
  "w_multiply E P k =
     (if w_isInfinity P then P
      else if k \<le> 0 then Infinity
      else w_multiply_loop E P k (3 * k) (bitLength (3 * k) - 2) P)"

fun w_multiplyTwo_loop ::
  "wparams \<Rightarrow> wpoint \<Rightarrow> int \<Rightarrow> wpoint \<Rightarrow> int \<Rightarrow> wpoint \<Rightarrow> nat \<Rightarrow> wpoint \<Rightarrow> wpoint" where
  "w_multiplyTwo_loop E P j Q k both 0 R = R"
| "w_multiplyTwo_loop E P j Q k both (Suc i) R =
     (let jBit = testBit j i;
          kBit = testBit k i;
          R = w_twice E R;
          R = (if jBit then (if kBit then w_add E R both else w_add E R P)
               else if kBit then w_add E R Q else R)
      in w_multiplyTwo_loop E P j Q k both i R)"

definition w_multiplyTwo :: "wparams \<Rightarrow> wpoint \<Rightarrow> int \<Rightarrow> wpoint \<Rightarrow> int \<Rightarrow> wpoint" where
  "w_multiplyTwo E P j Q k =
     w_multiplyTwo_loop E P j Q k (w_add E P Q) (max (bitLength j) (bitLength k)) Infinity"

definition w_isOnCurve :: "wparams \<Rightarrow> wpoint \<Rightarrow> bool" where
  "w_isOnCurve E P =
     (case P of
        Infinity \<Rightarrow> True
      | Affine x y \<Rightarrow> (y * y - (x * x * x + coef_a E * x + coef_b E)) mod fld_p E = 0)"

definition w_pointFromX :: "wparams \<Rightarrow> bool \<Rightarrow> int \<Rightarrow> wpoint option" where
  "w_pointFromX E isOdd x =
     (let p = fld_p E;
          alpha = (x * x * x + coef_a E * x + coef_b E) mod p;
          beta = (alpha ^ nat ((p + 1) div 4)) mod p;
          y = (if even beta \<noteq> (\<not> isOdd) then p - beta else beta)
      in Some (Affine x y))"

definition w_validate :: "wparams \<Rightarrow> wpoint \<Rightarrow> bool" where
  "w_validate E Q =
     (\<not> w_isInfinity Q \<and> w_isOnCurve E Q \<and> w_isInfinity (w_multiply E Q (ord_n E)))"

definition w_equals :: "wparams \<Rightarrow> wpoint \<Rightarrow> wpoint \<Rightarrow> bool" where
  "w_equals E P Q =
     (case P of
        Infinity \<Rightarrow> w_isInfinity Q
      | Affine x1 y1 \<Rightarrow>
          (case Q of
             Infinity \<Rightarrow> False
           | Affine x2 y2 \<Rightarrow> (y2 - y1) mod fld_p E = 0 \<and> (x2 - x1) mod fld_p E = 0))"

definition w_curve :: "wparams \<Rightarrow> wpoint curve" where
  "w_curve E =
     \<lparr>curve_n = ord_n E,
      curve_G = Affine (base_x E) (base_y E),
      isInfinity = w_isInfinity,
      affineX = w_affineX E,
      multiply = w_multiply E,
      multiplyTwo = w_multiplyTwo E,
      pointFromX = w_pointFromX E,
      validate = w_validate E,
      pt_equals = w_equals E\<rparr>"

text \<open>
  The curve \<open>y\<^sup>2 = x\<^sup>3 + 2 x + 7\<close> modulo 11.  It has 7 points, generated by \<open>(6, 2)\<close>:
  \<open>(6, 2)\<close>, \<open>(10, 9)\<close>, \<open>(7, 10)\<close>, \<open>(7, 1)\<close>, \<open>(10, 2)\<close>, \<open>(6, 9)\<close> and the point at
  infinity.
\<close>

definition curve11 :: "wpoint curve" where
  "curve11 = w_curve \<lparr>fld_p = 11, coef_a = 2, coef_b = 7, base_x = 6, base_y = 2, ord_n = 7\<rparr>"

text \<open>
  The curve \<open>y\<^sup>2 = x\<^sup>3 + 7\<close> modulo 43, whose 31 points are generated by \<open>(2, 12)\<close>.  Both
  \<open>x = 7\<close> and \<open>x = 7 + 31\<close> are x-coordinates of points of this curve.
\<close>

definition curve43 :: "wpoint curve" where
  "curve43 = w_curve \<lparr>fld_p = 43, coef_a = 0, coef_b = 7, base_x = 2, base_y = 12, ord_n = 31\<rparr>"

text \<open>
  Stand-ins for the two hash functions, returning 32 bytes of which only the last
  depends on the input.
\<close>

definition byte_sum :: "buffer \<Rightarrow> nat" where
  "byte_sum b = foldl (\<lambda>acc x. acc + unat x) 0 b"

definition tiny_hashes :: hashes where
  "tiny_hashes =
     \<lparr>sha256 = (\<lambda>data. replicate 31 0 @ [of_nat ((byte_sum data + length data) mod 256)]),
      HmacSHA256 = (\<lambda>data secret.
         replicate 31 0 @ [of_nat ((byte_sum data + byte_sum secret + length data) mod 8)])\<rparr>"

section \<open>Contracts and specification-level definitions\<close>

text \<open>
  What \<open>verifyRaw\<close> can observe of a point: whether it is at infinity and, if not, its
  affine x-coordinate.
\<close>

definition same_x :: "'p curve \<Rightarrow> 'p \<Rightarrow> 'p \<Rightarrow> bool" where
  "same_x C P P' =
     (isInfinity C P = isInfinity C P' \<and> (\<not> isInfinity C P \<longrightarrow> affineX C P = affineX C P'))"

text \<open>
  The contract of the curve collaborator that signing and verifying with the private key
  \<open>d\<close> rely on: every \<open>k\<close> in \<open>[1, n - 1]\<close> is coprime to the order \<open>n\<close> (\<open>n\<close> is prime);
  \<open>multiplyTwo\<close> computes \<open>a\<cdot>G + b\<cdot>Q\<close> for the public key \<open>Q = d\<cdot>G\<close> in the group of order
  \<open>n\<close> generated by \<open>G\<close>; and a point and its negative \<open>(n - k)\<cdot>G\<close> have the same
  x-coordinate.
\<close>

definition key_pair_contract :: "'p curve \<Rightarrow> int \<Rightarrow> bool" where
  "key_pair_contract C d =
     (let n = curve_n C; G = curve_G C; Q = multiply C G d
      in (\<forall>k\<in>{1..<n}. coprime k n) \<and>
         (\<forall>a\<in>{0..<n}. \<forall>b\<in>{0..<n}.
            same_x C (multiplyTwo C G a Q b) (multiply C G ((a + b * d) mod n))) \<and>
         (\<forall>k\<in>{1..<n}. same_x C (multiply C G (n - k)) (multiply C G k)))"


text \<open>
  \<open>verifyRaw\<close> as the specification words it: membership of \<open>r\<close> and \<open>s\<close> in
  \<open>[1, n - 1]\<close>, the mathematical remainder for \<open>mod\<close>, and acceptance exactly when
  \<open>R.x mod n = r\<close>.
\<close>

definition verifyRaw_spec :: "'p curve \<Rightarrow> int \<Rightarrow> ECSignature \<Rightarrow> 'p \<Rightarrow> bool" where
  "verifyRaw_spec C e signature Q =
     (let n = curve_n C; r = sig_r signature; s = sig_s signature
      in r \<in> {1..n - 1} \<and> s \<in> {1..n - 1} \<and>
         (let c = modInverse s n;
              u1 = (e * c) mod n;
              u2 = (r * c) mod n;
              R = multiplyTwo C (curve_G C) u1 Q u2
          in \<not> isInfinity C R \<and> affineX C R mod n = r))"

text \<open>
  \<open>recoverPubKey\<close> as the specification words it: the recovery id in \<open>[0, 3]\<close>, \<open>r\<close> and \<open>s\<close>
  in \<open>(0, n)\<close>, bit 0 of the id for the parity of \<open>y\<close>, bit 1 for \<open>x = r + n\<close>, the
  mathematical remainder for \<open>(-e) mod n\<close>.
\<close>

definition recoverPubKey_spec :: "'p curve \<Rightarrow> int \<Rightarrow> ECSignature \<Rightarrow> int \<Rightarrow> error + 'p" where
  "recoverPubKey_spec C e signature recoveryId =
     (let n = curve_n C; r = sig_r signature; s = sig_s signature
      in if recoveryId \<in> {0..3} \<and> r \<in> {0<..<n} \<and> s \<in> {0<..<n} then
           (let x = (if bit recoveryId 1 then r + n else r)
            in case pointFromX C (bit recoveryId 0) x of
                 None \<Rightarrow> Inl InvalidCurvePoint
               | Some R \<Rightarrow>
                   if isInfinity C (multiply C R n) then
                     (let eNeg = (- e) mod n;
                          Q = multiply C (multiplyTwo C R s (curve_G C) eNeg) (modInverse r n)
                      in if validate C Q then Inr Q else Inl InvalidCurvePoint)
                   else Inl RecoveryFailure)
         else Inl InputValidation)"

text \<open>
  The derivation of RFC 6979 as the specification words it, for a 256-bit digest and
  order.  \<open>HMAC_SHA256 K data\<close> takes the key first.  Each round of the loop first sets
  \<open>V = HMAC(K, V)\<close> and reads \<open>T\<close> from it; a candidate outside \<open>[1, n - 1]\<close> or rejected by
  \<open>accept\<close> re-keys with \<open>K = HMAC(K, V \<parallel> 0x00)\<close>, \<open>V = HMAC(K, V)\<close>.
\<close>

definition HMAC_SHA256 :: "hashes \<Rightarrow> buffer \<Rightarrow> buffer \<Rightarrow> buffer" where
  "HMAC_SHA256 H K data = HmacSHA256 H data K"

partial_function (option) rfc6979_loop ::
  "hashes \<Rightarrow> int \<Rightarrow> (int \<Rightarrow> 'st \<Rightarrow> bool \<times> 'st) \<Rightarrow> buffer \<times> buffer \<Rightarrow> 'st \<Rightarrow> (int \<times> 'st) option"
where
  "rfc6979_loop H n accept KV st =
     (let K = fst KV;
          V = HMAC_SHA256 H K (snd KV);
          T = fromBuffer V
      in if 1 \<le> T \<and> T < n then
           (let verdict = accept T st
            in if fst verdict then Some (T, snd verdict)
               else
                 let K = HMAC_SHA256 H K (V @ [0]);
                     V = HMAC_SHA256 H K V
                 in rfc6979_loop H n accept (K, V) (snd verdict))
         else
           let K = HMAC_SHA256 H K (V @ [0]);
               V = HMAC_SHA256 H K V
           in rfc6979_loop H n accept (K, V) st)"

definition rfc6979_generate ::
  "hashes \<Rightarrow> int \<Rightarrow> buffer \<Rightarrow> int \<Rightarrow> (int \<Rightarrow> 'st \<Rightarrow> bool \<times> 'st) \<Rightarrow> 'st \<Rightarrow> (int \<times> 'st) option"
where
  "rfc6979_generate H n digest d accept st =
     (let V = replicate 32 (1::byte);
          K = replicate 32 (0::byte);
          K = HMAC_SHA256 H K (V @ [0] @ toBuffer d 32 @ digest);
          V = HMAC_SHA256 H K V;
          K = HMAC_SHA256 H K (V @ [1] @ toBuffer d 32 @ digest);
          V = HMAC_SHA256 H K V
      in rfc6979_loop H n accept (K, V) st)"

section \<open>Facts about the big-integer operations\<close>

lemma bn_mod_eq: "0 < m \<Longrightarrow> bn_mod a m = a mod m"
  by (auto simp: bn_mod_def Let_def zmod_zminus1_eq_if)

lemma modInverse_loop_invariant:
  "0 \<le> r0 \<Longrightarrow> 0 \<le> r1 \<Longrightarrow> (t0 * a) mod m = r0 mod m \<Longrightarrow> (t1 * a) mod m = r1 mod m \<Longrightarrow>
   modInverse_loop r0 r1 t0 t1 = (g, t) \<Longrightarrow> (t * a) mod m = g mod m \<and> g = gcd r0 r1"
proof (induction r0 r1 t0 t1 rule: modInverse_loop.induct)
  case (1 r0 r1 t0 t1)
  show ?case
  proof (cases "r1 \<le> 0")
    case True
    with "1.prems" have "r1 = 0" "g = r0" "t = t0"
      by (simp_all add: modInverse_loop.simps[of r0 r1])
    with "1.prems" show ?thesis by simp
  next
    case False
    hence pos: "0 < r1" by simp
    let ?q = "r0 div r1"
    have step: "modInverse_loop r1 (r0 mod r1) t1 (t0 - ?q * t1) = (g, t)"
      using "1.prems"(5) False by (simp add: modInverse_loop.simps[of r0 r1])
    have "(t0 - ?q * t1) * a = t0 * a - ?q * (t1 * a)"
      by (simp add: algebra_simps)
    hence "((t0 - ?q * t1) * a) mod m = (t0 * a - ?q * (t1 * a)) mod m"
      by simp
    also have "\<dots> = (r0 - ?q * r1) mod m"
      using "1.prems"(3,4) by (intro mod_diff_cong mod_mult_cong) simp_all
    also have "r0 - ?q * r1 = r0 mod r1"
      by (simp add: minus_mult_div_eq_mod mult.commute)
    finally have inv: "((t0 - ?q * t1) * a) mod m = (r0 mod r1) mod m" .
    have "(t * a) mod m = g mod m \<and> g = gcd r1 (r0 mod r1)"
      using "1.IH"[OF False _ _ "1.prems"(4) inv step] pos by simp
    moreover have "gcd r1 (r0 mod r1) = gcd r0 r1"
      by (metis gcd.commute gcd_red_int)
    ultimately show ?thesis by simp
  qed
qed

lemma modInverse_correct:
  assumes m: "1 < m" and cop: "coprime a m"
  shows "(a * modInverse a m) mod m = 1"
proof -
  obtain g t where loop: "modInverse_loop m (a mod m) 0 1 = (g, t)"
    by (cases "modInverse_loop m (a mod m) 0 1")
  have "(t * a) mod m = g mod m \<and> g = gcd m (a mod m)"
    using m by (intro modInverse_loop_invariant[OF _ _ _ _ loop]) simp_all
  moreover have "gcd m (a mod m) = 1"
    using cop by (metis coprime_iff_gcd_eq_1 gcd.commute gcd_red_int)
  ultimately have g: "g = 1" and ta: "(t * a) mod m = 1"
    using m by simp_all
  have "(a * (t mod m)) mod m = (t * a) mod m"
    by (simp add: mod_mult_right_eq mult.commute)
  with m g loop ta show ?thesis by (simp add: modInverse_def)
qed

lemma mod_one_mult:
  fixes n :: int
  assumes "(a * b) mod n = 1 mod n"
  shows "(a * b * t) mod n = t mod n"
proof -
  have "(a * b * t) mod n = (((a * b) mod n) * t) mod n"
    by (simp add: mod_mult_left_eq)
  also have "\<dots> = ((1 mod n) * t) mod n" using assms by simp
  also have "\<dots> = t mod n" by (simp add: mod_mult_left_eq)
  finally show ?thesis .
qed

lemma ecdsa_algebra:
  fixes n k ki e d r s s0 c :: int
  assumes n: "1 < n"
    and kinv: "(k * ki) mod n = 1"
    and s0: "s0 = (ki * (e + d * r)) mod n"
    and sinv: "(s * c) mod n = 1"
    and s: "s = s0 \<or> s = n - s0"
  shows "((e * c) mod n + ((r * c) mod n) * d) mod n = (if s = s0 then k mod n else (- k) mod n)"
proof -
  let ?t = "e + d * r"
  have one: "1 mod n = (1::int)" using n by simp
  have "((e * c) mod n + ((r * c) mod n) * d) mod n = (e * c + r * c * d) mod n"
    by (intro mod_add_cong mod_mult_cong) simp_all
  also have "e * c + r * c * d = c * ?t" by (simp add: algebra_simps)
  finally have lhs: "((e * c) mod n + ((r * c) mod n) * d) mod n = (c * ?t) mod n" .
  have "(c * k * s0) mod n = (c * k * (ki * ?t)) mod n"
    unfolding s0 by (simp add: mod_mult_right_eq)
  also have "\<dots> = (k * ki * (c * ?t)) mod n"
    by (simp add: mult_ac)
  also have "\<dots> = (c * ?t) mod n"
    using kinv one by (simp only: mod_one_mult)
  finally have ct: "(c * ?t) mod n = (c * k * s0) mod n" by simp
  show ?thesis
  proof (cases "s = s0")
    case True
    have "(c * k * s0) mod n = (s * c * k) mod n" using True by (simp add: mult_ac)
    also have "\<dots> = k mod n" using sinv one by (simp only: mod_one_mult)
    finally show ?thesis using True lhs ct by simp
  next
    case False
    with s have s0': "s0 = n - s" by simp
    have "c * k * s0 = - (s * c * k) + (c * k) * n"
      unfolding s0' by (simp add: algebra_simps)
    hence "(c * k * s0) mod n = (- (s * c * k) + (c * k) * n) mod n"
      by simp
    also have "\<dots> = (- (s * c * k)) mod n"
      by (simp only: mod_mult_self1)
    also have "\<dots> = (- ((s * c * k) mod n)) mod n"
      by (simp add: mod_minus_eq)
    also have "(s * c * k) mod n = k mod n" using sinv one by (simp only: mod_one_mult)
    also have "(- (k mod n)) mod n = (- k) mod n" by (simp add: mod_minus_eq)
    finally show ?thesis using False lhs ct by simp
  qed
qed

section \<open>The nonce loop and the signature it leaves behind\<close>

lemma genK_loop_result:
  assumes ret: "genK_loop H n checkSig kv st = Some y"
  shows "0 < fst y \<and> fst y < n \<and> (\<exists>st0. checkSig (fst y) st0 = (True, snd y))"
proof (rule genK_loop.raw_induct
    [where P = "\<lambda>H n checkSig kv st y.
        0 < fst y \<and> fst y < n \<and> (\<exists>st0. checkSig (fst y) st0 = (True, snd y))",
      OF _ ret], goal_cases)
  case (1 loop H n checkSig kv st y)
  note IH = 1(1) and body = 1(2)
  show ?case
  proof (cases "fromBuffer (snd kv) \<le> 0 \<or> n \<le> fromBuffer (snd kv)")
    case True
    with body have "loop H n checkSig (rekey H kv) st = Some y"
      by (simp add: Let_def)
    then show ?thesis by (rule IH)
  next
    case range: False
    show ?thesis
    proof (cases "fst (checkSig (fromBuffer (snd kv)) st)")
      case False
      with range body
      have "loop H n checkSig (rekey H kv) (snd (checkSig (fromBuffer (snd kv)) st)) = Some y"
        by (simp add: Let_def)
      then show ?thesis by (rule IH)
    next
      case True
      with range body
      have y: "y = (fromBuffer (snd kv), snd (checkSig (fromBuffer (snd kv)) st))"
        by (simp add: Let_def)
      hence f: "fst y = fromBuffer (snd kv)"
        and sn: "snd y = snd (checkSig (fromBuffer (snd kv)) st)"
        by simp_all
      have "checkSig (fst y) st = (True, snd y)"
        using True f sn by (simp add: prod_eq_iff)
      hence "\<exists>st0. checkSig (fst y) st0 = (True, snd y)" ..
      with range f show ?thesis by simp
    qed
  qed
qed

text \<open>
  The loop returns as soon as the HMAC stream offers a candidate in range that the
  callback accepts: if that happens after \<open>m\<close> rounds of re-keying, the loop ends.
\<close>

lemma genK_loop_ends:
  assumes range: "0 < fromBuffer (snd ((rekey H ^^ m) kv))" "fromBuffer (snd ((rekey H ^^ m) kv)) < n"
    and acc: "\<forall>st. fst (checkSig (fromBuffer (snd ((rekey H ^^ m) kv))) st)"
  shows "\<exists>y. genK_loop H n checkSig kv st = Some y"
  using assms
proof (induction m arbitrary: kv st)
  case 0
  then show ?case
    by (subst genK_loop.simps) (simp add: Let_def)
next
  case (Suc m)
  have shift: "(rekey H ^^ Suc m) kv = (rekey H ^^ m) (rekey H kv)"
    by (simp add: funpow_swap1)
  have next_round: "\<exists>y. genK_loop H n checkSig (rekey H kv) st' = Some y" for st'
    using Suc.prems unfolding shift by (intro Suc.IH) simp_all
  show ?case
  proof (cases "fromBuffer (snd kv) \<le> 0 \<or> n \<le> fromBuffer (snd kv)")
    case True
    with next_round[of st] show ?thesis
      by (subst genK_loop.simps) (simp add: Let_def)
  next
    case False
    with next_round[of "snd (checkSig (fromBuffer (snd kv)) st)"] show ?thesis
      by (subst genK_loop.simps) (simp add: Let_def)
  qed
qed

text \<open>
  Whether the loop ends depends on the HMAC function: with one whose values all decode
  to zero, no candidate is ever in range.
\<close>

lemma genK_loop_never_ends:
  assumes zero: "\<And>data secret. fromBuffer (HmacSHA256 H data secret) = 0"
    and start: "fromBuffer (snd kv) = 0"
  shows "genK_loop H n checkSig kv st = None"
proof (cases "genK_loop H n checkSig kv st")
  case None
  then show ?thesis .
next
  case (Some y)
  have "fromBuffer (snd kv) = 0 \<longrightarrow> (\<forall>data secret. fromBuffer (HmacSHA256 H data secret) = 0) \<longrightarrow> False"
  proof (rule genK_loop.raw_induct
      [where P = "\<lambda>H n checkSig kv st y.
          fromBuffer (snd kv) = 0 \<longrightarrow> (\<forall>data secret. fromBuffer (HmacSHA256 H data secret) = 0) \<longrightarrow> False",
        OF _ Some], goal_cases)
    case (1 loop H n checkSig kv st y)
    note IH = 1(1) and body = 1(2)
    show ?case
    proof (intro impI)
      assume T: "fromBuffer (snd kv) = 0"
        and z: "\<forall>data secret. fromBuffer (HmacSHA256 H data secret) = 0"
      from body T have "loop H n checkSig (rekey H kv) st = Some y"
        by (simp add: Let_def)
      moreover have "fromBuffer (snd (rekey H kv)) = 0"
        using z by (simp add: rekey_def Let_def)
      ultimately show False using IH z by blast
    qed
  qed
  with zero start show ?thesis by blast
qed

lemma deterministicGenerateK_result:
  assumes "deterministicGenerateK H C hash d checkSig nonce st = Some (Inr (T, st'))"
  shows "0 < T \<and> T < curve_n C \<and> (\<exists>st0. checkSig T st0 = (True, st'))"
proof -
  from assms obtain kv where "genK_loop H (curve_n C) checkSig kv st = Some (T, st')"
    by (auto simp: deterministicGenerateK_def Let_def split: sum.splits if_splits)
  from genK_loop_result[OF this] show ?thesis by simp
qed

lemma sign_checkSig_accept:
  assumes "sign_checkSig C e d k st0 = (True, st')"
  shows "\<not> isInfinity C (multiply C (curve_G C) k)
     \<and> var_r st' = Some (bn_mod (affineX C (multiply C (curve_G C) k)) (curve_n C))
     \<and> bn_mod (affineX C (multiply C (curve_G C) k)) (curve_n C) \<noteq> 0
     \<and> var_s st' = Some (bn_mod (modInverse k (curve_n C) *
           (e + d * bn_mod (affineX C (multiply C (curve_G C) k)) (curve_n C))) (curve_n C))
     \<and> bn_mod (modInverse k (curve_n C) *
           (e + d * bn_mod (affineX C (multiply C (curve_G C) k)) (curve_n C))) (curve_n C) \<noteq> 0"
  using assms by (auto simp: sign_checkSig_def Let_def split: if_splits)

lemma sign_returns:
  assumes "sign H C h d nonce = Some (Inr sg)"
  obtains k s0 where "0 < k" "k < curve_n C"
    and "\<not> isInfinity C (multiply C (curve_G C) k)"
    and "sig_r sg = affineX C (multiply C (curve_G C) k) mod curve_n C"
    and "sig_r sg \<noteq> 0"
    and "s0 = (modInverse k (curve_n C) * (fromBuffer h + d * sig_r sg)) mod curve_n C"
    and "s0 \<noteq> 0"
    and "sig_s sg = (if s0 > curve_n C div 2 then curve_n C - s0 else s0)"
proof -
  let ?chk = "sign_checkSig C (fromBuffer h) d"
  let ?st = "\<lparr>var_r = None, var_s = None\<rparr>"
  from assms obtain T st where
    gen: "deterministicGenerateK H C h d ?chk nonce ?st = Some (Inr (T, st))"
    by (auto simp: sign_def Let_def split: option.splits sum.splits)
  from assms gen obtain r s where rs: "var_r st = Some r" "var_s st = Some s"
    and sg: "sg = \<lparr>sig_r = r, sig_s = (if s > curve_n C div 2 then curve_n C - s else s)\<rparr>"
    by (auto simp: sign_def Let_def shiftRight1_def split: option.splits)
  from deterministicGenerateK_result[OF gen] obtain st0 where T: "0 < T" "T < curve_n C"
    and acc: "?chk T st0 = (True, st)" by auto
  have n: "0 < curve_n C" using T by simp
  from sign_checkSig_accept[OF acc] rs sg T that[of T s] show ?thesis
    by (simp add: bn_mod_eq[OF n])
qed

lemma sign_range:
  assumes "sign H C h d nonce = Some (Inr sg)"
  shows "0 < sig_r sg \<and> sig_r sg < curve_n C \<and> 0 < sig_s sg \<and> sig_s sg < curve_n C
     \<and> sig_s sg \<le> curve_n C div 2"
proof -
  from assms obtain k s0 where k: "0 < k" "k < curve_n C"
    and r: "sig_r sg = affineX C (multiply C (curve_G C) k) mod curve_n C" "sig_r sg \<noteq> 0"
    and s0: "s0 = (modInverse k (curve_n C) * (fromBuffer h + d * sig_r sg)) mod curve_n C" "s0 \<noteq> 0"
    and s: "sig_s sg = (if s0 > curve_n C div 2 then curve_n C - s0 else s0)"
    by (rule sign_returns)
  have n: "0 < curve_n C" using k by simp
  have "0 \<le> sig_r sg" "sig_r sg < curve_n C" using r(1) n by simp_all
  moreover have "0 \<le> s0" "s0 < curve_n C" using s0(1) n by simp_all
  ultimately show ?thesis using r(2) s0(2) s by auto
qed

lemma sign_verifies:
  assumes contract: "key_pair_contract C d"
    and ret: "sign H C h d nonce = Some (Inr sg)"
  shows "verify C h sg (multiply C (curve_G C) d)"
proof -
  define n where "n = curve_n C"
  define G where "G = curve_G C"
  define Q where "Q = multiply C G d"
  define e where "e = fromBuffer h"
  define r where "r = sig_r sg"
  define s where "s = sig_s sg"
  from ret obtain k s0 where k: "0 < k" "k < n"
    and kG: "\<not> isInfinity C (multiply C G k)"
    and r_eq: "r = affineX C (multiply C G k) mod n"
    and s0: "s0 = (modInverse k n * (e + d * r)) mod n" "s0 \<noteq> 0"
    and s_eq: "s = (if s0 > n div 2 then n - s0 else s0)"
    unfolding n_def G_def e_def r_def s_def by (rule sign_returns)
  from sign_range[OF ret] have r: "0 < r" "r < n" and s: "0 < s" "s < n"
    unfolding n_def r_def s_def by simp_all
  have n1: "1 < n" using k by simp
  have prime: "\<forall>j\<in>{1..<n}. coprime j n"
    and mt: "\<forall>a\<in>{0..<n}. \<forall>b\<in>{0..<n}.
               same_x C (multiplyTwo C G a Q b) (multiply C G ((a + b * d) mod n))"
    and neg: "\<forall>j\<in>{1..<n}. same_x C (multiply C G (n - j)) (multiply C G j)"
    using contract unfolding key_pair_contract_def Let_def n_def G_def Q_def by simp_all
  define c where "c = modInverse s n"
  define u1 where "u1 = (e * c) mod n"
  define u2 where "u2 = (r * c) mod n"
  define R where "R = multiplyTwo C G u1 Q u2"
  have kinv: "(k * modInverse k n) mod n = 1"
    using prime k n1 by (intro modInverse_correct) simp_all
  have sinv: "(s * c) mod n = 1"
    unfolding c_def using prime s n1 by (intro modInverse_correct) simp_all
  have alt: "s = s0 \<or> s = n - s0" using s_eq by simp
  have sum: "(u1 + u2 * d) mod n = (if s = s0 then k mod n else (- k) mod n)"
    unfolding u1_def u2_def by (rule ecdsa_algebra[OF n1 kinv s0(1) sinv alt])
  have kmod: "k mod n = k" using k by simp
  have nkmod: "(- k) mod n = n - k"
    using k by (simp add: zmod_zminus1_eq_if)
  have u: "u1 \<in> {0..<n}" "u2 \<in> {0..<n}"
    unfolding u1_def u2_def using n1 by simp_all
  have R1: "same_x C R (multiply C G ((u1 + u2 * d) mod n))"
    unfolding R_def using mt u by blast
  have R2: "same_x C R (multiply C G k)"
  proof (cases "s = s0")
    case True
    with R1 sum kmod show ?thesis by simp
  next
    case False
    with R1 sum nkmod have "same_x C R (multiply C G (n - k))" by simp
    moreover have "same_x C (multiply C G (n - k)) (multiply C G k)"
      using neg k by simp
    ultimately show ?thesis by (auto simp: same_x_def)
  qed
  from R2 kG have Rfin: "\<not> isInfinity C R" and Rx: "affineX C R = affineX C (multiply C G k)"
    by (auto simp: same_x_def)
  have n0: "0 < n" using n1 by simp
  have bm: "\<And>a. bn_mod a (curve_n C) = a mod curve_n C"
    using n0 by (simp add: bn_mod_eq n_def)
  have vr: "verifyRaw C e sg Q =
      (if r \<le> 0 \<or> n \<le> r then False
       else if s \<le> 0 \<or> n \<le> s then False
       else if isInfinity C R then False
       else bn_mod (affineX C R) n = r)"
    unfolding verifyRaw_def Let_def n_def G_def r_def s_def c_def u1_def u2_def R_def
    by (simp add: bm)
  have "bn_mod (affineX C R) n = r"
    using Rx r_eq by (simp add: bn_mod_eq[OF n0])
  with vr r s Rfin have "verifyRaw C e sg Q"
    by simp
  thus ?thesis
    unfolding verify_def Let_def e_def Q_def G_def .
qed

lemma sign_total:
  assumes len: "length h = 32" and ends: "sign H C h d None \<noteq> None"
  shows "\<exists>sg. sign H C h d None = Some (Inr sg)"
proof -
  let ?chk = "sign_checkSig C (fromBuffer h) d"
  let ?st = "\<lparr>var_r = None, var_s = None\<rparr>"
  from ends obtain x where x: "deterministicGenerateK H C h d ?chk None ?st = Some x"
    by (auto simp: sign_def Let_def split: option.splits)
  with len obtain T st where gen: "deterministicGenerateK H C h d ?chk None ?st = Some (Inr (T, st))"
    by (auto simp: deterministicGenerateK_def nonce_hash_def Let_def)
  from deterministicGenerateK_result[OF gen] obtain st0 where "?chk T st0 = (True, st)"
    by auto
  from sign_checkSig_accept[OF this] obtain r s where "var_r st = Some r" "var_s st = Some s"
    by auto
  with gen show ?thesis
    by (simp add: sign_def Let_def)
qed

lemma sign_may_not_end:
  assumes zero: "\<And>data secret. fromBuffer (HmacSHA256 H data secret) = 0"
    and len: "length h = 32"
  shows "sign H C h d None = None"
  using len
  by (simp add: sign_def deterministicGenerateK_def nonce_hash_def Let_def
      genK_loop_never_ends[OF zero] zero)

section \<open>The small instance satisfies the contract\<close>

lemma curve11_contract: "key_pair_contract curve11 4"
proof -
  have n: "curve_n curve11 = 7" by code_simp
  have Q: "multiply curve11 (curve_G curve11) 4 = Affine 7 1" by code_simp
  have ivl: "{1..<7::int} = set [1..6]" "{0..<7::int} = set [0..6]"
    by (simp_all only: set_upto) auto
  have A: "\<forall>k\<in>set [1..6]. coprime k (7::int)" by code_simp
  have B: "\<forall>a\<in>set [0..6]. \<forall>b\<in>set [0..6].
      same_x curve11 (multiplyTwo curve11 (curve_G curve11) a (Affine 7 1) b)
        (multiply curve11 (curve_G curve11) ((a + b * 4) mod 7))"
    by code_simp
  have C: "\<forall>k\<in>set [1..6].
      same_x curve11 (multiply curve11 (curve_G curve11) (7 - k)) (multiply curve11 (curve_G curve11) k)"
    by code_simp
  show ?thesis
    unfolding key_pair_contract_def Let_def n Q ivl using A B C by blast
qed

section \<open>Facts about the nonce argument, the recovery loop and the derivation\<close>

lemma and_3_eq_iff: "(and i 3 = i) = (0 \<le> i \<and> i \<le> 3)" for i :: int
proof -
  have "and i 3 = take_bit 2 i"
    by (simp add: take_bit_eq_mask mask_eq_exp_minus_1)
  also have "\<dots> = i mod 4"
    by (simp add: take_bit_eq_mod)
  finally have "and i 3 = i mod 4" .
  moreover have "(i mod 4 = i) = (0 \<le> i \<and> i \<le> 3)"
    by (smt (verit) mod_pos_pos_trivial pos_mod_bound pos_mod_sign)
  ultimately show ?thesis by simp
qed

lemma recovery_bits:
  fixes i :: int
  assumes "0 \<le> i" "i \<le> 3"
  shows "(and i 1 \<noteq> 0) = bit i 0" and "(drop_bit (Suc 0) i \<noteq> 0) = bit i (Suc 0)"
proof -
  from assms have "i = 0 \<or> i = 1 \<or> i = 2 \<or> i = 3" by auto
  thus "(and i 1 \<noteq> 0) = bit i 0" and "(drop_bit (Suc 0) i \<noteq> 0) = bit i (Suc 0)"
    by (auto simp: bit_iff_odd drop_bit_eq_div and_one_eq)
qed

lemma deterministicGenerateK_no_nonce:
  "deterministicGenerateK H C h d checkSig (Some 0) st = deterministicGenerateK H C h d checkSig None st"
  by (simp add: deterministicGenerateK_def nonce_hash_def)

lemma deterministicGenerateK_nonce:
  "0 < m \<Longrightarrow> deterministicGenerateK H C h d checkSig (Some m) st
     = deterministicGenerateK H C (sha256 H (h @ replicate (nat m) 0)) d checkSig None st"
  by (simp add: deterministicGenerateK_def nonce_hash_def)


lemma recoverPubKey_not_RecoveryNotFound:
  "recoverPubKey C e sg i \<noteq> Inl RecoveryNotFound"
  by (simp add: recoverPubKey_def Let_def split: option.splits)

lemma calcPubKeyRecoveryParam_unrolled:
  "calcPubKeyRecoveryParam C e sg Q =
     (case recoverPubKey C e sg 0 of
        Inl err \<Rightarrow> Inl err
      | Inr Q0 \<Rightarrow>
          if pt_equals C Q0 Q then Inr 0
          else case recoverPubKey C e sg 1 of
            Inl err \<Rightarrow> Inl err
          | Inr Q1 \<Rightarrow>
              if pt_equals C Q1 Q then Inr 1
              else case recoverPubKey C e sg 2 of
                Inl err \<Rightarrow> Inl err
              | Inr Q2 \<Rightarrow>
                  if pt_equals C Q2 Q then Inr 2
                  else case recoverPubKey C e sg 3 of
                    Inl err \<Rightarrow> Inl err
                  | Inr Q3 \<Rightarrow> if pt_equals C Q3 Q then Inr 3 else Inl RecoveryNotFound)"
  unfolding calcPubKeyRecoveryParam_def
  by (simp add: calcPubKeyRecoveryParam_from.simps[of C e sg Q 0]
      calcPubKeyRecoveryParam_from.simps[of C e sg Q 1]
      calcPubKeyRecoveryParam_from.simps[of C e sg Q 2]
      calcPubKeyRecoveryParam_from.simps[of C e sg Q 3]
      calcPubKeyRecoveryParam_from.simps[of C e sg Q 4]
      split: sum.splits)

lemma map_option_Inr_eq: "map_option Inr x = Some (Inr y) \<Longrightarrow> x = Some y"
  by (cases x) auto

lemma rekey_HMAC:
  "rekey H (K, V) =
     (HMAC_SHA256 H K (V @ [0]),
      HMAC_SHA256 H (HMAC_SHA256 H K (V @ [0])) (HMAC_SHA256 H (HMAC_SHA256 H K (V @ [0])) V))"
  by (simp add: rekey_def HMAC_SHA256_def Let_def)

lemma genK_loop_imp_rfc6979_loop:
  assumes ret: "genK_loop H n chk kv st = Some y"
  shows "\<forall>K V. kv = (K, HMAC_SHA256 H K V) \<longrightarrow> rfc6979_loop H n chk (K, V) st = Some y"
proof (rule genK_loop.raw_induct
    [where P = "\<lambda>H n chk kv st y.
        \<forall>K V. kv = (K, HMAC_SHA256 H K V) \<longrightarrow> rfc6979_loop H n chk (K, V) st = Some y",
      OF _ ret], goal_cases)
  case (1 loop H n chk kv st y)
  note IH = 1(1) and body = 1(2)
  show ?case
  proof (intro allI impI)
    fix K V
    assume kv: "kv = (K, HMAC_SHA256 H K V)"
    let ?V = "HMAC_SHA256 H K V"
    let ?T = "fromBuffer ?V"
    let ?K' = "HMAC_SHA256 H K (?V @ [0])"
    have next_kv: "rekey H kv = (?K', HMAC_SHA256 H ?K' (HMAC_SHA256 H ?K' ?V))"
      unfolding kv by (rule rekey_HMAC)
    show "rfc6979_loop H n chk (K, V) st = Some y"
    proof (cases "?T \<le> 0 \<or> n \<le> ?T")
      case True
      with body kv have "loop H n chk (rekey H kv) st = Some y"
        by (simp add: Let_def)
      from IH[OF this] next_kv
      have "rfc6979_loop H n chk (?K', HMAC_SHA256 H ?K' ?V) st = Some y" by simp
      with True show ?thesis
        by (subst rfc6979_loop.simps) (auto simp: Let_def)
    next
      case range: False
      show ?thesis
      proof (cases "fst (chk ?T st)")
        case False
        with range body kv have "loop H n chk (rekey H kv) (snd (chk ?T st)) = Some y"
          by (simp add: Let_def)
        from IH[OF this] next_kv
        have "rfc6979_loop H n chk (?K', HMAC_SHA256 H ?K' ?V) (snd (chk ?T st)) = Some y"
          by simp
        with range False show ?thesis
          by (subst rfc6979_loop.simps) (auto simp: Let_def)
      next
        case True
        with range body kv have "y = (?T, snd (chk ?T st))"
          by (simp add: Let_def)
        with range True show ?thesis
          by (subst rfc6979_loop.simps) (auto simp: Let_def)
      qed
    qed
  qed
qed

lemma rfc6979_loop_imp_genK_loop:
  assumes ret: "rfc6979_loop H n chk KV st = Some y"
  shows "genK_loop H n chk (fst KV, HMAC_SHA256 H (fst KV) (snd KV)) st = Some y"
proof (rule rfc6979_loop.raw_induct
    [where P = "\<lambda>H n chk KV st y.
        genK_loop H n chk (fst KV, HMAC_SHA256 H (fst KV) (snd KV)) st = Some y",
      OF _ ret], goal_cases)
  case (1 loop H n chk KV st y)
  note IH = 1(1) and body = 1(2)
  let ?K = "fst KV"
  let ?V = "HMAC_SHA256 H ?K (snd KV)"
  let ?T = "fromBuffer ?V"
  let ?K' = "HMAC_SHA256 H ?K (?V @ [0])"
  have next_kv: "rekey H (?K, ?V) = (?K', HMAC_SHA256 H ?K' (HMAC_SHA256 H ?K' ?V))"
    by (rule rekey_HMAC)
  show ?case
  proof (cases "1 \<le> ?T \<and> ?T < n")
    case False
    with body have "loop H n chk (?K', HMAC_SHA256 H ?K' ?V) st = Some y"
      by (simp add: Let_def)
    from IH[OF this] have "genK_loop H n chk (rekey H (?K, ?V)) st = Some y"
      by (simp add: next_kv)
    with False show ?thesis
      by (subst genK_loop.simps) (auto simp: Let_def)
  next
    case range: True
    show ?thesis
    proof (cases "fst (chk ?T st)")
      case False
      with range body have "loop H n chk (?K', HMAC_SHA256 H ?K' ?V) (snd (chk ?T st)) = Some y"
        by (simp add: Let_def)
      from IH[OF this] have "genK_loop H n chk (rekey H (?K, ?V)) (snd (chk ?T st)) = Some y"
        by (simp add: next_kv)
      with range False show ?thesis
        by (subst genK_loop.simps) (auto simp: Let_def)
    next
      case True
      with range body have "y = (?T, snd (chk ?T st))"
        by (simp add: Let_def)
      with range True show ?thesis
        by (subst genK_loop.simps) (auto simp: Let_def)
    qed
  qed
qed

lemma genK_loop_eq_rfc6979_loop:
  "genK_loop H n chk (K, HMAC_SHA256 H K V) st = rfc6979_loop H n chk (K, V) st"
proof (cases "genK_loop H n chk (K, HMAC_SHA256 H K V) st")
  case (Some y)
  from genK_loop_imp_rfc6979_loop[OF this] Some show ?thesis by simp
next
  case None
  show ?thesis
  proof (cases "rfc6979_loop H n chk (K, V) st")
    case (Some y)
    from rfc6979_loop_imp_genK_loop[OF this] None show ?thesis by simp
  next
    case None
    with \<open>genK_loop H n chk (K, HMAC_SHA256 H K V) st = None\<close> show ?thesis by simp
  qed
qed

lemma deterministicGenerateK_eq_rfc6979:
  assumes "length digest = 32"
  shows "deterministicGenerateK H C digest d accept None st
     = map_option Inr (rfc6979_generate H (curve_n C) digest d accept st)"
  using assms
  by (simp add: deterministicGenerateK_def nonce_hash_def rfc6979_generate_def Let_def
      genK_loop_eq_rfc6979_loop[symmetric] HMAC_SHA256_def)

section \<open>When the nonce search ends\<close>

lemma nonce_hash_None: "nonce_hash H h None = Inr h"
  by (simp add: nonce_hash_def)

lemma nonce_hash_pos: "0 < m \<Longrightarrow> nonce_hash H h (Some m) = Inr (sha256 H (h @ replicate (nat m) 0))"
  by (simp add: nonce_hash_def)

lemma sign_checkSig_verdict: "fst (sign_checkSig C e d k st) = sign_accepts C e d k"
  by (simp add: sign_accepts_def sign_checkSig_def Let_def)

lemma deterministicGenerateK_loop:
  assumes "nonce_hash H h nonce = Inr h'" and "length h' = 32"
  shows "deterministicGenerateK H C h d checkSig nonce st
     = map_option Inr (genK_loop H (curve_n C) checkSig (genK_start H h' d) st)"
  using assms by (simp add: deterministicGenerateK_def genK_start_def Let_def)

text \<open>
  \<open>sign\<close> returns a signature as soon as the candidate of some round is in range and
  accepted, and in no other case.
\<close>

lemma sign_ends:
  assumes nh: "nonce_hash H h nonce = Inr h'" and len: "length h' = 32"
    and lo: "0 < genK_candidate H h' d m" and hi: "genK_candidate H h' d m < curve_n C"
    and acc: "sign_accepts C (fromBuffer h) d (genK_candidate H h' d m)"
  shows "\<exists>sg. sign H C h d nonce = Some (Inr sg)"
proof -
  let ?chk = "sign_checkSig C (fromBuffer h) d"
  let ?st = "\<lparr>var_r = None, var_s = None\<rparr>"
  have "\<exists>y. genK_loop H (curve_n C) ?chk (genK_start H h' d) ?st = Some y"
    using lo hi acc unfolding genK_candidate_def
    by (intro genK_loop_ends) (simp_all add: sign_checkSig_verdict)
  then obtain T st where
    gen: "deterministicGenerateK H C h d ?chk nonce ?st = Some (Inr (T, st))"
    by (auto simp: deterministicGenerateK_loop[OF nh len])
  from deterministicGenerateK_result[OF gen] obtain st0 where "?chk T st0 = (True, st)"
    by auto
  from sign_checkSig_accept[OF this] obtain r s where "var_r st = Some r" "var_s st = Some s"
    by auto
  with gen show ?thesis
    by (simp add: sign_def Let_def)
qed

lemma genK_loop_candidate:
  assumes "genK_loop H n checkSig kv st = Some y"
  shows "\<exists>m st0. fst y = fromBuffer (snd ((rekey H ^^ m) kv)) \<and> 0 < fst y \<and> fst y < n
           \<and> fst (checkSig (fst y) st0)"
proof (rule genK_loop.raw_induct
    [where P = "\<lambda>H n checkSig kv st y.
        \<exists>m st0. fst y = fromBuffer (snd ((rekey H ^^ m) kv)) \<and> 0 < fst y \<and> fst y < n
           \<and> fst (checkSig (fst y) st0)",
      OF _ assms], goal_cases)
  case (1 loop H n checkSig kv st y)
  note IH = 1(1) and body = 1(2)
  show ?case
  proof (cases "0 < fromBuffer (snd kv) \<and> fromBuffer (snd kv) < n
      \<and> fst (checkSig (fromBuffer (snd kv)) st)")
    case True
    with body have "fst y = fromBuffer (snd kv)"
      by (auto simp: Let_def split: if_splits)
    with True show ?thesis
      by (intro exI[of _ 0] exI[of _ st]) simp
  next
    case False
    with body obtain st' where "loop H n checkSig (rekey H kv) st' = Some y"
      by (auto simp: Let_def split: if_splits)
    from IH[OF this] obtain m st0 where
      "fst y = fromBuffer (snd ((rekey H ^^ m) (rekey H kv)))" "0 < fst y" "fst y < n"
      "fst (checkSig (fst y) st0)" by blast
    thus ?thesis
      by (intro exI[of _ "Suc m"] exI[of _ st0]) (simp add: funpow_swap1)
  qed
qed

lemma sign_returns_candidate:
  assumes nh: "nonce_hash H h nonce = Inr h'"
    and ret: "sign H C h d nonce = Some (Inr sg)"
  shows "\<exists>m. 0 < genK_candidate H h' d m \<and> genK_candidate H h' d m < curve_n C
           \<and> sign_accepts C (fromBuffer h) d (genK_candidate H h' d m)"
proof -
  let ?chk = "sign_checkSig C (fromBuffer h) d"
  let ?st = "\<lparr>var_r = None, var_s = None\<rparr>"
  from ret obtain T st where
    gen: "deterministicGenerateK H C h d ?chk nonce ?st = Some (Inr (T, st))"
    by (auto simp: sign_def Let_def split: option.splits sum.splits)
  with nh have len: "length h' = 32"
    by (auto simp: deterministicGenerateK_def split: if_splits)
  from gen have "genK_loop H (curve_n C) ?chk (genK_start H h' d) ?st = Some (T, st)"
    unfolding deterministicGenerateK_loop[OF nh len] by (rule map_option_Inr_eq)
  from genK_loop_candidate[OF this] show ?thesis
    by (auto simp: genK_candidate_def sign_checkSig_verdict)
qed

text \<open>
  The search never ends when it starts in a finite set of pairs \<open>(k, v)\<close> that re-keying
  maps into itself and whose candidates are all out of range or rejected.
\<close>

lemma genK_loop_cycle:
  assumes closed: "\<forall>kv\<in>set L. rekey H kv \<in> set L"
    and rejected: "\<forall>kv\<in>set L. fromBuffer (snd kv) \<le> 0 \<or> n \<le> fromBuffer (snd kv)
        \<or> (\<forall>st. \<not> fst (checkSig (fromBuffer (snd kv)) st))"
    and start: "kv \<in> set L"
  shows "genK_loop H n checkSig kv st = None"
proof (cases "genK_loop H n checkSig kv st")
  case None
  then show ?thesis .
next
  case (Some y)
  have "kv \<in> set L \<longrightarrow> (\<forall>kv\<in>set L. rekey H kv \<in> set L) \<longrightarrow>
      (\<forall>kv\<in>set L. fromBuffer (snd kv) \<le> 0 \<or> n \<le> fromBuffer (snd kv)
        \<or> (\<forall>st. \<not> fst (checkSig (fromBuffer (snd kv)) st))) \<longrightarrow> False"
  proof (rule genK_loop.raw_induct
      [where P = "\<lambda>H n checkSig kv st y. kv \<in> set L \<longrightarrow> (\<forall>kv\<in>set L. rekey H kv \<in> set L) \<longrightarrow>
      (\<forall>kv\<in>set L. fromBuffer (snd kv) \<le> 0 \<or> n \<le> fromBuffer (snd kv)
        \<or> (\<forall>st. \<not> fst (checkSig (fromBuffer (snd kv)) st))) \<longrightarrow> False",
        OF _ Some], goal_cases)
    case (1 loop H n checkSig kv st y)
    note IH = 1(1) and body = 1(2)
    show ?case
    proof (intro impI)
      assume mem: "kv \<in> set L"
        and cl: "\<forall>kv\<in>set L. rekey H kv \<in> set L"
        and rj: "\<forall>kv\<in>set L. fromBuffer (snd kv) \<le> 0 \<or> n \<le> fromBuffer (snd kv)
          \<or> (\<forall>st. \<not> fst (checkSig (fromBuffer (snd kv)) st))"
      from rj mem have "fromBuffer (snd kv) \<le> 0 \<or> n \<le> fromBuffer (snd kv)
          \<or> (\<forall>st. \<not> fst (checkSig (fromBuffer (snd kv)) st))" by blast
      with body obtain st' where "loop H n checkSig (rekey H kv) st' = Some y"
        by (auto simp: Let_def split: if_splits)
      moreover from cl mem have "rekey H kv \<in> set L" by blast
      ultimately show False using IH cl rj by blast
    qed
  qed
  with closed rejected start show ?thesis by blast
qed

lemma sign_cycle:
  assumes nh: "nonce_hash H h nonce = Inr h'" and len: "length h' = 32"
    and closed: "\<forall>kv\<in>set L. rekey H kv \<in> set L"
    and rejected: "\<forall>kv\<in>set L. fromBuffer (snd kv) \<le> 0 \<or> curve_n C \<le> fromBuffer (snd kv)
        \<or> \<not> sign_accepts C (fromBuffer h) d (fromBuffer (snd kv))"
    and start: "genK_start H h' d \<in> set L"
  shows "sign H C h d nonce = None"
proof -
  have "genK_loop H (curve_n C) (sign_checkSig C (fromBuffer h) d) (genK_start H h' d)
      \<lparr>var_r = None, var_s = None\<rparr> = None"
    using closed rejected start
    by (intro genK_loop_cycle[where L = L]) (simp_all add: sign_checkSig_verdict)
  thus ?thesis
    by (simp add: sign_def Let_def deterministicGenerateK_loop[OF nh len])
qed

section \<open>Some recovery id recovers the public key\<close>







text \<open>
  Without a nonce, and with the nonce zero, a digest whose length is not 32 bytes is
  refused.
\<close>

lemma wrong_length_digest_rejected_without_nonce:
  assumes "nonce = None \<or> nonce = Some 0" and "length h \<noteq> 32"
  shows "deterministicGenerateK H C h d checkSig nonce st = Some (Inl InputValidation)"
    and "sign H C h d nonce = Some (Inl InputValidation)"
  using assms by (auto simp: deterministicGenerateK_def nonce_hash_def sign_def Let_def)

section \<open>Signing and verifying\<close>

text \<open>
  C1.  The round trip does not hold for every 32-byte digest: \<open>sign\<close> returns only if
  the nonce search of \<open>deterministicGenerateK\<close> ends, and its \<open>while\<close> loop has no bound.
  On the small instance (the 7-point curve, which meets the contract for \<open>d = 4\<close>, and
  the eight-valued stand-in for HMAC), for \<open>d = 4\<close> and the digest \<open>00\<dots>02\<close>, the pairs
  \<open>(k, v)\<close> of the search run through four values for ever; their candidates are 3, which
  the acceptance test refuses because \<open>(3\<cdot>G).x mod n = 0\<close>, and 7, which is out of range.
  The call never returns, so there is no signature to verify.
\<close>

theorem sign_verify_roundtrip_counterexample:
  "key_pair_contract curve11 4
   \<and> 0 < (4::int) \<and> 4 < curve_n curve11
   \<and> length (replicate 31 (0::byte) @ [2]) = 32
   \<and> sign tiny_hashes curve11 (replicate 31 0 @ [2]) 4 None = None"
proof -
  let ?L = "[(replicate 31 (0::byte) @ [6], replicate 31 (0::byte) @ [3]),
             (replicate 31 0 @ [2], replicate 31 0 @ [7]),
             (replicate 31 0 @ [2], replicate 31 0 @ [3]),
             (replicate 31 0 @ [6], replicate 31 0 @ [7])]"
  have len: "length (replicate 31 (0::byte) @ [2]) = 32" by simp
  have n: "(4::int) < curve_n curve11" by code_simp
  have closed: "\<forall>kv\<in>set ?L. rekey tiny_hashes kv \<in> set ?L"
    by code_simp
  have rejected: "\<forall>kv\<in>set ?L. fromBuffer (snd kv) \<le> 0 \<or> curve_n curve11 \<le> fromBuffer (snd kv)
        \<or> \<not> sign_accepts curve11 (fromBuffer (replicate 31 0 @ [2])) 4 (fromBuffer (snd kv))"
    by code_simp
  have start: "genK_start tiny_hashes (replicate 31 0 @ [2]) 4 \<in> set ?L"
    by code_simp
  have "sign tiny_hashes curve11 (replicate 31 0 @ [2]) 4 None = None"
    by (rule sign_cycle[OF nonce_hash_None len closed rejected start])
  with curve11_contract len n show ?thesis by simp
qed

text \<open>
  C1, as amended.  Round trip.  For every curve that meets the contract for the private
  key \<open>d\<close> (every \<open>0 < d < n\<close> on a prime-order curve does) and every 32-byte digest \<open>h\<close>
  for which the nonce search reaches, after some number \<open>m\<close> of rounds of re-keying, a
  candidate in \<open>[1, n - 1]\<close> that the acceptance test of \<open>sign\<close> accepts: the call
  \<open>sign(curve, h, d)\<close> without nonce returns a signature, raising no error, and that
  signature verifies against the public key \<open>d\<cdot>G\<close>, that is
  \<open>verify(curve, h, sign(curve, h, d), d\<cdot>G)\<close> is true.  (In no other case does the call
  return a signature: \<open>sign_returns_candidate\<close>.)
\<close>

theorem sign_verify_roundtrip:
  assumes "key_pair_contract C d"
    and "length h = 32"
    and "0 < genK_candidate H h d m"
    and "genK_candidate H h d m < curve_n C"
    and "sign_accepts C (fromBuffer h) d (genK_candidate H h d m)"
  shows "\<exists>sg. sign H C h d None = Some (Inr sg) \<and> verify C h sg (multiply C (curve_G C) d)"
proof -
  from sign_ends[OF nonce_hash_None assms(2-5)]
  obtain sg where ret: "sign H C h d None = Some (Inr sg)" ..
  from sign_verifies[OF assms(1) ret] ret show ?thesis by blast
qed

theorem sign_verify_roundtrip_witness:
  "key_pair_contract curve11 4
   \<and> length (replicate 31 (0::byte) @ [1]) = 32
   \<and> genK_candidate tiny_hashes (replicate 31 0 @ [1]) 4 2 = 6
   \<and> curve_n curve11 = 7
   \<and> sign_accepts curve11 (fromBuffer (replicate 31 0 @ [1])) 4 6
   \<and> sign tiny_hashes curve11 (replicate 31 0 @ [1]) 4 None = Some (Inr \<lparr>sig_r = 6, sig_s = 3\<rparr>)
   \<and> verify curve11 (replicate 31 0 @ [1]) \<lparr>sig_r = 6, sig_s = 3\<rparr>
        (multiply curve11 (curve_G curve11) 4)"
proof -
  have len: "length (replicate 31 (0::byte) @ [1]) = 32" by simp
  have cand: "genK_candidate tiny_hashes (replicate 31 0 @ [1]) 4 2 = 6"
    by code_simp
  have n: "curve_n curve11 = 7" by code_simp
  have acc: "sign_accepts curve11 (fromBuffer (replicate 31 0 @ [1])) 4 6"
    by code_simp
  have ret: "sign tiny_hashes curve11 (replicate 31 0 @ [1]) 4 None
      = Some (Inr \<lparr>sig_r = 6, sig_s = 3\<rparr>)"
    by code_simp
  have lo: "0 < genK_candidate tiny_hashes (replicate 31 0 @ [1]) 4 2"
    and hi: "genK_candidate tiny_hashes (replicate 31 0 @ [1]) 4 2 < curve_n curve11"
    and acc': "sign_accepts curve11 (fromBuffer (replicate 31 0 @ [1])) 4
        (genK_candidate tiny_hashes (replicate 31 0 @ [1]) 4 2)"
    using cand n acc by simp_all
  from sign_verify_roundtrip[OF curve11_contract len lo hi acc'] ret
  have "verify curve11 (replicate 31 0 @ [1]) \<lparr>sig_r = 6, sig_s = 3\<rparr>
        (multiply curve11 (curve_G curve11) 4)"
    by simp
  with curve11_contract len cand n acc ret show ?thesis by blast
qed

text \<open>
  C2.  \<open>verifyRaw\<close> returns a boolean on every input (it has no failing branch): false
  when \<open>r\<close> or \<open>s\<close> is outside \<open>[1, n - 1]\<close>; otherwise, with \<open>c = s\<^sup>-\<^sup>1 mod n\<close>,
  \<open>u1 = e\<cdot>c mod n\<close>, \<open>u2 = r\<cdot>c mod n\<close> and \<open>R = u1\<cdot>G + u2\<cdot>Q\<close> from one call of
  \<open>multiplyTwo\<close>, false when \<open>R\<close> is at infinity and otherwise true exactly when
  \<open>R.x mod n = r\<close>.  \<open>verify(curve, digest, signature, Q)\<close> is
  \<open>verifyRaw(curve, int(digest), signature, Q)\<close>.
\<close>

theorem verifyRaw_meets_spec:
  "verifyRaw C e signature Q = verifyRaw_spec C e signature Q
   \<and> verify C digest signature Q = verifyRaw C (fromBuffer digest) signature Q"
proof
  show "verify C digest signature Q = verifyRaw C (fromBuffer digest) signature Q"
    by (simp add: verify_def)
next
  show "verifyRaw C e signature Q = verifyRaw_spec C e signature Q"
  proof (cases "0 < sig_r signature \<and> sig_r signature < curve_n C")
    case True
    hence n: "0 < curve_n C" by simp
    show ?thesis
      unfolding verifyRaw_def verifyRaw_spec_def Let_def
      by (auto simp: bn_mod_eq[OF n])
  next
    case False
    thus ?thesis
      unfolding verifyRaw_def verifyRaw_spec_def Let_def by auto
  qed
qed

theorem verifyRaw_meets_spec_witness:
  "verifyRaw curve11 1 \<lparr>sig_r = 6, sig_s = 3\<rparr> (Affine 7 1)
   \<and> verifyRaw_spec curve11 1 \<lparr>sig_r = 6, sig_s = 3\<rparr> (Affine 7 1)
   \<and> verify curve11 (replicate 31 0 @ [1]) \<lparr>sig_r = 6, sig_s = 3\<rparr> (Affine 7 1)
   \<and> \<not> verifyRaw curve11 2 \<lparr>sig_r = 6, sig_s = 3\<rparr> (Affine 7 1)
   \<and> \<not> verifyRaw_spec curve11 2 \<lparr>sig_r = 6, sig_s = 3\<rparr> (Affine 7 1)
   \<and> \<not> verifyRaw curve11 1 \<lparr>sig_r = 7, sig_s = 3\<rparr> (Affine 7 1)
   \<and> \<not> verifyRaw_spec curve11 1 \<lparr>sig_r = 7, sig_s = 3\<rparr> (Affine 7 1)"
proof -
  have a: "verifyRaw curve11 1 \<lparr>sig_r = 6, sig_s = 3\<rparr> (Affine 7 1)" by code_simp
  have b: "\<not> verifyRaw curve11 2 \<lparr>sig_r = 6, sig_s = 3\<rparr> (Affine 7 1)" by code_simp
  have c: "\<not> verifyRaw curve11 1 \<lparr>sig_r = 7, sig_s = 3\<rparr> (Affine 7 1)" by code_simp
  have e: "fromBuffer (replicate 31 0 @ [1]) = 1" by code_simp
  from a b c e
    verifyRaw_meets_spec[of curve11 1 "\<lparr>sig_r = 6, sig_s = 3\<rparr>" "Affine 7 1" "replicate 31 0 @ [1]"]
    verifyRaw_meets_spec[of curve11 2 "\<lparr>sig_r = 6, sig_s = 3\<rparr>" "Affine 7 1" "[]"]
    verifyRaw_meets_spec[of curve11 1 "\<lparr>sig_r = 7, sig_s = 3\<rparr>" "Affine 7 1" "[]"]
  show ?thesis by simp
qed

text \<open>
  C3.  Canonical form.  Every signature returned by \<open>sign\<close> has \<open>r\<close> and \<open>s\<close> in
  \<open>[1, n - 1]\<close> and \<open>s \<le> n/2\<close>, where \<open>n/2\<close> is \<open>n.shiftRight(1)\<close>: the callback accepts
  only candidates with \<open>r \<noteq> 0\<close> and \<open>s \<noteq> 0\<close>, and \<open>sign\<close> replaces an \<open>s\<close> above \<open>n/2\<close> by
  \<open>n - s\<close>.
\<close>

theorem sign_canonical:
  assumes "sign H C h d nonce = Some (Inr sg)"
  shows "1 \<le> sig_r sg \<and> sig_r sg \<le> curve_n C - 1
     \<and> 1 \<le> sig_s sg \<and> sig_s sg \<le> curve_n C - 1
     \<and> sig_s sg \<le> shiftRight1 (curve_n C)"
  using sign_range[OF assms] by (simp add: shiftRight1_def)

theorem sign_canonical_witness:
  "sign tiny_hashes curve11 (replicate 31 0 @ [4]) 1 None = Some (Inr \<lparr>sig_r = 6, sig_s = 3\<rparr>)
   \<and> 1 \<le> sig_r \<lparr>sig_r = 6, sig_s = 3\<rparr> \<and> sig_r \<lparr>sig_r = 6, sig_s = 3\<rparr> \<le> curve_n curve11 - 1
   \<and> 1 \<le> sig_s \<lparr>sig_r = 6, sig_s = 3\<rparr> \<and> sig_s \<lparr>sig_r = 6, sig_s = 3\<rparr> \<le> curve_n curve11 - 1
   \<and> sig_s \<lparr>sig_r = 6, sig_s = 3\<rparr> \<le> shiftRight1 (curve_n curve11)"
proof -
  have ret: "sign tiny_hashes curve11 (replicate 31 0 @ [4]) 1 None
      = Some (Inr \<lparr>sig_r = 6, sig_s = 3\<rparr>)"
    by code_simp
  from sign_canonical[OF ret] ret show ?thesis by simp
qed

section \<open>Properties of the nonce generator\<close>

text \<open>
  C4.  For a 32-byte digest and no nonce, \<open>deterministicGenerateK\<close> is the derivation of
  RFC 6979 for 256-bit digests: \<open>V = 0x01\<times>32\<close>, \<open>K = 0x00\<times>32\<close>, two rounds of updates of \<open>K\<close>
  and \<open>V\<close> with the separator bytes \<open>0x00\<close> and \<open>0x01\<close> over \<open>d_bytes(32) \<parallel> digest\<close>, then
  the retry loop that re-keys \<open>K\<close> with \<open>V \<parallel> 0x00\<close> after each rejection.  Whenever it
  returns a scalar \<open>T\<close> (for any digest and nonce), \<open>1 \<le> T \<le> n - 1\<close> and the call of the
  acceptance callback on \<open>T\<close> returned true.
\<close>

theorem deterministicGenerateK_rfc6979:
  assumes "length digest = 32"
  shows "deterministicGenerateK H C digest d accept None st
           = map_option Inr (rfc6979_generate H (curve_n C) digest d accept st)
     \<and> (\<forall>T st'. deterministicGenerateK H C digest d accept nonce st = Some (Inr (T, st')) \<longrightarrow>
           1 \<le> T \<and> T \<le> curve_n C - 1 \<and> (\<exists>st0. accept T st0 = (True, st')))"
proof (intro conjI allI impI)
  show "deterministicGenerateK H C digest d accept None st
           = map_option Inr (rfc6979_generate H (curve_n C) digest d accept st)"
    using assms by (rule deterministicGenerateK_eq_rfc6979)
next
  fix T st'
  assume "deterministicGenerateK H C digest d accept nonce st = Some (Inr (T, st'))"
  from deterministicGenerateK_result[OF this]
  show "1 \<le> T" and "T \<le> curve_n C - 1" and "\<exists>st0. accept T st0 = (True, st')"
    by simp_all
qed

theorem deterministicGenerateK_rfc6979_witness:
  "length (replicate 32 (0::byte)) = 32
   \<and> deterministicGenerateK tiny_hashes curve11 (replicate 32 0) 4 (\<lambda>k st. (odd k, st)) None ()
       = Some (Inr (5, ()))
   \<and> rfc6979_generate tiny_hashes (curve_n curve11) (replicate 32 0) 4 (\<lambda>k st. (odd k, st)) ()
       = Some (5, ())
   \<and> (1::int) \<le> 5 \<and> 5 \<le> curve_n curve11 - 1 \<and> odd (5::int)"
proof -
  have len: "length (replicate 32 (0::byte)) = 32" by simp
  have ret: "deterministicGenerateK tiny_hashes curve11 (replicate 32 0) 4 (\<lambda>k st. (odd k, st)) None ()
       = Some (Inr (5, ()))"
    by code_simp
  note inst = deterministicGenerateK_rfc6979
    [OF len, of tiny_hashes curve11 4 "\<lambda>k st. (odd k, st)" "()" None]
  from inst have eq: "deterministicGenerateK tiny_hashes curve11 (replicate 32 0) 4
      (\<lambda>k st. (odd k, st)) None ()
    = map_option Inr (rfc6979_generate tiny_hashes (curve_n curve11) (replicate 32 0) 4
      (\<lambda>k st. (odd k, st)) ())"
    by blast
  have spec: "rfc6979_generate tiny_hashes (curve_n curve11) (replicate 32 0) 4
      (\<lambda>k st. (odd k, st)) () = Some (5, ())"
    by (rule map_option_Inr_eq[OF trans[OF eq[symmetric] ret]])
  from inst ret have "(1::int) \<le> 5 \<and> 5 \<le> curve_n curve11 - 1 \<and> odd (5::int)"
    by blast
  with len ret spec show ?thesis by blast
qed

text \<open>
  C8.  A digest whose length is not 32 bytes has to stop \<open>deterministicGenerateK\<close> with
  \<open>InputValidation\<close>: the source has the check, under the comment \<open>sanity check\<close> and with
  the message \<open>Hash must be 256 bit\<close>, and without a nonce a 31-byte digest is refused.
  But the statement that replaces the digest by a SHA-256 value when a non-zero nonce is
  given stands before the check, which then sees the replacement and never the digest
  that was supplied: for a 31-byte digest with nonce 1, \<open>deterministicGenerateK\<close> yields
  the nonce 5 and \<open>sign\<close> yields the signature \<open>(3, 1)\<close>.
\<close>

theorem wrong_length_digest_with_nonce_accepted:
  "length (replicate 31 (0::byte)) \<noteq> 32
   \<and> deterministicGenerateK tiny_hashes curve11 (replicate 31 0) 4 (\<lambda>k st. (True, st)) (Some 1) ()
       = Some (Inr (5, ()))
   \<and> sign tiny_hashes curve11 (replicate 31 0) 4 (Some 1) = Some (Inr \<lparr>sig_r = 3, sig_s = 1\<rparr>)
   \<and> deterministicGenerateK tiny_hashes curve11 (replicate 31 0) 4 (\<lambda>k st. (True, st)) None ()
       = Some (Inl InputValidation)
   \<and> sign tiny_hashes curve11 (replicate 31 0) 4 None = Some (Inl InputValidation)"
  by code_simp

text \<open>
  C9.  A nonce of zero is the same as no nonce, and a positive nonce \<open>m\<close> runs the
  derivation on \<open>SHA256(digest \<parallel> zero-bytes(m))\<close>, the digest followed by \<open>m\<close> zero bytes,
  in place of the digest.  The result is a function of the arguments, so repeated calls
  with the same arguments agree.
\<close>

theorem nonce_perturbation:
  "deterministicGenerateK H C h d checkSig (Some 0) st
     = deterministicGenerateK H C h d checkSig None st
   \<and> (0 < m \<longrightarrow>
        deterministicGenerateK H C h d checkSig (Some m) st
          = deterministicGenerateK H C (sha256 H (h @ replicate (nat m) 0)) d checkSig None st)"
  by (simp add: deterministicGenerateK_no_nonce deterministicGenerateK_nonce)

theorem nonce_perturbation_witness:
  "deterministicGenerateK tiny_hashes curve11 (replicate 32 0) 4 (\<lambda>k st. (True, st)) (Some 0) ()
     = deterministicGenerateK tiny_hashes curve11 (replicate 32 0) 4 (\<lambda>k st. (True, st)) None ()
   \<and> (0::int) < 1
   \<and> deterministicGenerateK tiny_hashes curve11 (replicate 32 0) 4 (\<lambda>k st. (True, st)) (Some 1) ()
       = deterministicGenerateK tiny_hashes curve11
           (sha256 tiny_hashes (replicate 32 0 @ replicate (nat 1) 0)) 4 (\<lambda>k st. (True, st)) None ()
   \<and> deterministicGenerateK tiny_hashes curve11 (replicate 32 0) 4 (\<lambda>k st. (True, st)) (Some 1) ()
       = Some (Inr (4, ()))
   \<and> deterministicGenerateK tiny_hashes curve11 (replicate 32 0) 4 (\<lambda>k st. (True, st)) None ()
       = Some (Inr (5, ()))"
proof -
  have a: "deterministicGenerateK tiny_hashes curve11 (replicate 32 0) 4 (\<lambda>k st. (True, st)) (Some 1) ()
       = Some (Inr (4, ()))"
    by code_simp
  have b: "deterministicGenerateK tiny_hashes curve11 (replicate 32 0) 4 (\<lambda>k st. (True, st)) None ()
       = Some (Inr (5, ()))"
    by code_simp
  from nonce_perturbation[of tiny_hashes curve11 "replicate 32 0" 4 "\<lambda>k st. (True, st)" "()" 1] a b
  show ?thesis by simp
qed

text \<open>
  C10.  \<open>sign\<close> with a non-zero nonce does not always return a signature that verifies.
  A negative nonce makes \<open>Buffer.alloc\<close> raise a range error:
  \<open>sign(curve, h, d, -1)\<close> fails with \<open>RangeError\<close>.  And the nonce search may not end: on
  the small instance, for \<open>d = 4\<close>, the digest \<open>00\<dots>01\<close> and the nonce 1, the search runs
  through four pairs \<open>(k, v)\<close> for ever, with the candidates 3 (rejected) and 7 (out of
  range), and the call never returns.
\<close>

theorem sign_with_nonce_verifies_counterexample:
  "sign tiny_hashes curve11 (replicate 32 0) 4 (Some (- 1)) = Some (Inl RangeError)
   \<and> sign tiny_hashes curve11 (replicate 31 0 @ [1]) 4 (Some 1) = None"
proof -
  let ?L = "[(replicate 31 (0::byte) @ [6], replicate 31 (0::byte) @ [3]),
             (replicate 31 0 @ [2], replicate 31 0 @ [7]),
             (replicate 31 0 @ [2], replicate 31 0 @ [3]),
             (replicate 31 0 @ [6], replicate 31 0 @ [7])]"
  have neg: "sign tiny_hashes curve11 (replicate 32 0) 4 (Some (- 1)) = Some (Inl RangeError)"
    by (simp add: sign_def deterministicGenerateK_def nonce_hash_def)
  have h': "sha256 tiny_hashes ((replicate 31 0 @ [1]) @ replicate (nat 1) 0) = replicate 31 0 @ [34]"
    by code_simp
  have nh: "nonce_hash tiny_hashes (replicate 31 0 @ [1]) (Some 1) = Inr (replicate 31 0 @ [34])"
    using nonce_hash_pos[of 1 tiny_hashes "replicate 31 0 @ [1]"] h' by simp
  have len: "length (replicate 31 (0::byte) @ [34]) = 32" by simp
  have closed: "\<forall>kv\<in>set ?L. rekey tiny_hashes kv \<in> set ?L"
    by code_simp
  have rejected: "\<forall>kv\<in>set ?L. fromBuffer (snd kv) \<le> 0 \<or> curve_n curve11 \<le> fromBuffer (snd kv)
        \<or> \<not> sign_accepts curve11 (fromBuffer (replicate 31 0 @ [1])) 4 (fromBuffer (snd kv))"
    by code_simp
  have start: "genK_start tiny_hashes (replicate 31 0 @ [34]) 4 \<in> set ?L"
    by code_simp
  have "sign tiny_hashes curve11 (replicate 31 0 @ [1]) 4 (Some 1) = None"
    by (rule sign_cycle[OF nh len closed rejected start])
  with neg show ?thesis by simp
qed

text \<open>
  C10, as amended.  A positive nonce changes only the derivation of \<open>k\<close>.  For a nonce
  \<open>m > 0\<close> and a digest \<open>h\<close> for which the nonce search on \<open>SHA256(h \<parallel> zero-bytes(m))\<close>, a
  32-byte value, reaches after some number of rounds a candidate in \<open>[1, n - 1]\<close> that the
  acceptance test of \<open>sign\<close> accepts, \<open>sign(curve, h, d, m)\<close> returns a signature.  It is
  built from some \<open>0 < k < n\<close> with \<open>r = (k\<cdot>G).x mod n\<close> and \<open>s\<close> equal to
  \<open>k\<^sup>-\<^sup>1\<cdot>(e + d\<cdot>r) mod n\<close> or its negative modulo \<open>n\<close>, where \<open>e = int(h)\<close> is read from the
  original digest, and it verifies against the original digest:
  \<open>verify(curve, h, sign(curve, h, d, m), d\<cdot>G)\<close> is true.
\<close>

theorem sign_with_nonce_verifies:
  assumes "key_pair_contract C d"
    and "0 < m"
    and "length (sha256 H (h @ replicate (nat m) 0)) = 32"
    and "0 < genK_candidate H (sha256 H (h @ replicate (nat m) 0)) d j"
    and "genK_candidate H (sha256 H (h @ replicate (nat m) 0)) d j < curve_n C"
    and "sign_accepts C (fromBuffer h) d (genK_candidate H (sha256 H (h @ replicate (nat m) 0)) d j)"
  shows "\<exists>sg. sign H C h d (Some m) = Some (Inr sg)
     \<and> verify C h sg (multiply C (curve_G C) d)
     \<and> (\<exists>k s0. 0 < k \<and> k < curve_n C
           \<and> sig_r sg = affineX C (multiply C (curve_G C) k) mod curve_n C
           \<and> s0 = (modInverse k (curve_n C) * (fromBuffer h + d * sig_r sg)) mod curve_n C
           \<and> (sig_s sg = s0 \<or> sig_s sg = curve_n C - s0))"
proof -
  from sign_ends[OF nonce_hash_pos[OF assms(2)] assms(3-6)]
  obtain sg where ret: "sign H C h d (Some m) = Some (Inr sg)" ..
  have ver: "verify C h sg (multiply C (curve_G C) d)"
    using assms(1) ret by (rule sign_verifies)
  from ret obtain k s0 where "0 < k" "k < curve_n C"
    and "sig_r sg = affineX C (multiply C (curve_G C) k) mod curve_n C"
    and "s0 = (modInverse k (curve_n C) * (fromBuffer h + d * sig_r sg)) mod curve_n C"
    and "sig_s sg = (if s0 > curve_n C div 2 then curve_n C - s0 else s0)"
    by (rule sign_returns)
  hence "\<exists>k s0. 0 < k \<and> k < curve_n C
           \<and> sig_r sg = affineX C (multiply C (curve_G C) k) mod curve_n C
           \<and> s0 = (modInverse k (curve_n C) * (fromBuffer h + d * sig_r sg)) mod curve_n C
           \<and> (sig_s sg = s0 \<or> sig_s sg = curve_n C - s0)"
    by (intro exI[of _ k] exI[of _ s0]) auto
  with ret ver show ?thesis by blast
qed

theorem sign_with_nonce_verifies_witness:
  "key_pair_contract curve11 4 \<and> (0::int) < 1
   \<and> sha256 tiny_hashes (replicate 32 0 @ replicate (nat 1) 0) = replicate 31 0 @ [33]
   \<and> genK_candidate tiny_hashes (replicate 31 0 @ [33]) 4 2 = 6
   \<and> curve_n curve11 = 7
   \<and> sign_accepts curve11 (fromBuffer (replicate 32 0)) 4 6
   \<and> sign tiny_hashes curve11 (replicate 32 0) 4 (Some 1) = Some (Inr \<lparr>sig_r = 6, sig_s = 3\<rparr>)
   \<and> verify curve11 (replicate 32 0) \<lparr>sig_r = 6, sig_s = 3\<rparr>
        (multiply curve11 (curve_G curve11) 4)"
proof -
  have pos: "(0::int) < 1" by simp
  have h': "sha256 tiny_hashes (replicate 32 0 @ replicate (nat 1) 0) = replicate 31 0 @ [33]"
    by code_simp
  have cand: "genK_candidate tiny_hashes (replicate 31 0 @ [33]) 4 2 = 6"
    by code_simp
  have n: "curve_n curve11 = 7" by code_simp
  have acc: "sign_accepts curve11 (fromBuffer (replicate 32 0)) 4 6"
    by code_simp
  have ret: "sign tiny_hashes curve11 (replicate 32 0) 4 (Some 1)
      = Some (Inr \<lparr>sig_r = 6, sig_s = 3\<rparr>)"
    by code_simp
  have len: "length (sha256 tiny_hashes (replicate 32 0 @ replicate (nat 1) 0)) = 32"
    unfolding h' by simp
  have lo: "0 < genK_candidate tiny_hashes (sha256 tiny_hashes (replicate 32 0 @ replicate (nat 1) 0)) 4 2"
    and hi: "genK_candidate tiny_hashes (sha256 tiny_hashes (replicate 32 0 @ replicate (nat 1) 0)) 4 2
        < curve_n curve11"
    and acc': "sign_accepts curve11 (fromBuffer (replicate 32 0)) 4
        (genK_candidate tiny_hashes (sha256 tiny_hashes (replicate 32 0 @ replicate (nat 1) 0)) 4 2)"
    unfolding h' using cand n acc by simp_all
  from sign_with_nonce_verifies[OF curve11_contract pos len lo hi acc'] ret
  have "verify curve11 (replicate 32 0) \<lparr>sig_r = 6, sig_s = 3\<rparr>
        (multiply curve11 (curve_G curve11) 4)"
    by simp
  with curve11_contract pos h' cand n acc ret show ?thesis by blast
qed

section \<open>Public-key recovery\<close>




text \<open>
  C6.  \<open>recoverPubKey\<close> fails with \<open>InputValidation\<close> exactly when the recovery id is
  outside \<open>[0, 3]\<close> or \<open>r\<close> or \<open>s\<close> is outside \<open>(0, n)\<close>.  Otherwise it rebuilds \<open>R\<close> from
  \<open>x = r + n\<close> when bit 1 of the id is set and from \<open>x = r\<close> when it is not, with the
  parity of \<open>y\<close> given by bit 0; fails with \<open>RecoveryFailure\<close> when \<open>n\<cdot>R\<close> is not at
  infinity; takes \<open>eNeg = (-e) mod n\<close>, which lies in \<open>[0, n - 1]\<close>; and returns
  \<open>Q = r\<^sup>-\<^sup>1\<cdot>(s\<cdot>R + eNeg\<cdot>G)\<close> once \<open>curve.validate\<close> has passed it.
\<close>

theorem recoverPubKey_meets_spec:
  "recoverPubKey C e signature recoveryId = recoverPubKey_spec C e signature recoveryId
   \<and> ((recoverPubKey C e signature recoveryId = Inl InputValidation) =
        (recoveryId \<notin> {0..3} \<or> sig_r signature \<notin> {0<..<curve_n C}
           \<or> sig_s signature \<notin> {0<..<curve_n C}))
   \<and> (sig_r signature \<in> {0<..<curve_n C} \<longrightarrow>
        bn_mod (- e) (curve_n C) \<in> {0..curve_n C - 1})"
proof (intro conjI impI)
  show eq: "recoverPubKey C e signature recoveryId = recoverPubKey_spec C e signature recoveryId"
  proof (cases "recoveryId \<in> {0..3} \<and> sig_r signature \<in> {0<..<curve_n C}
      \<and> sig_s signature \<in> {0<..<curve_n C}")
    case True
    hence n: "0 < curve_n C" and i: "0 \<le> recoveryId" "recoveryId \<le> 3" by auto
    from True show ?thesis
      unfolding recoverPubKey_def recoverPubKey_spec_def Let_def
      by (simp add: and_3_eq_iff recovery_bits[OF i] bn_mod_eq[OF n] split: option.splits)
  next
    case False
    thus ?thesis
      unfolding recoverPubKey_def recoverPubKey_spec_def Let_def
      by (auto simp: and_3_eq_iff)
  qed
  show "(recoverPubKey C e signature recoveryId = Inl InputValidation) =
        (recoveryId \<notin> {0..3} \<or> sig_r signature \<notin> {0<..<curve_n C}
           \<or> sig_s signature \<notin> {0<..<curve_n C})"
    unfolding eq recoverPubKey_spec_def Let_def
    by (auto split: option.splits)
  assume "sig_r signature \<in> {0<..<curve_n C}"
  hence n: "0 < curve_n C" by simp
  thus "bn_mod (- e) (curve_n C) \<in> {0..curve_n C - 1}"
    by (simp add: bn_mod_eq[OF n])
qed

theorem recoverPubKey_meets_spec_witness:
  "recoverPubKey curve11 1 \<lparr>sig_r = 6, sig_s = 3\<rparr> 1 = Inr (Affine 7 1)
   \<and> recoverPubKey_spec curve11 1 \<lparr>sig_r = 6, sig_s = 3\<rparr> 1 = Inr (Affine 7 1)
   \<and> sig_r \<lparr>sig_r = 6, sig_s = 3\<rparr> \<in> {0<..<curve_n curve11}
   \<and> bn_mod (- 1) (curve_n curve11) \<in> {0..curve_n curve11 - 1}
   \<and> recoverPubKey curve11 1 \<lparr>sig_r = 6, sig_s = 3\<rparr> 4 = Inl InputValidation
   \<and> recoverPubKey curve11 1 \<lparr>sig_r = 6, sig_s = 7\<rparr> 1 = Inl InputValidation
   \<and> recoverPubKey curve11 1 \<lparr>sig_r = 6, sig_s = 3\<rparr> 2 = Inl RecoveryFailure"
proof -
  have a: "recoverPubKey curve11 1 \<lparr>sig_r = 6, sig_s = 3\<rparr> 1 = Inr (Affine 7 1)" by code_simp
  have b: "recoverPubKey curve11 1 \<lparr>sig_r = 6, sig_s = 3\<rparr> 2 = Inl RecoveryFailure" by code_simp
  have n: "curve_n curve11 = 7" by code_simp
  note t1 = recoverPubKey_meets_spec[of curve11 1 "\<lparr>sig_r = 6, sig_s = 3\<rparr>" 1]
  note t4 = recoverPubKey_meets_spec[of curve11 1 "\<lparr>sig_r = 6, sig_s = 3\<rparr>" 4]
  note t7 = recoverPubKey_meets_spec[of curve11 1 "\<lparr>sig_r = 6, sig_s = 7\<rparr>" 1]
  from t1 have "recoverPubKey curve11 1 \<lparr>sig_r = 6, sig_s = 3\<rparr> 1
      = recoverPubKey_spec curve11 1 \<lparr>sig_r = 6, sig_s = 3\<rparr> 1"
    by blast
  with a have s1: "recoverPubKey_spec curve11 1 \<lparr>sig_r = 6, sig_s = 3\<rparr> 1 = Inr (Affine 7 1)"
    by simp
  have rng: "sig_r \<lparr>sig_r = 6, sig_s = 3\<rparr> \<in> {0<..<curve_n curve11}"
    using n by simp
  have eneg: "bn_mod (- 1) (curve_n curve11) \<in> {0..curve_n curve11 - 1}"
    using t1 rng by blast
  have "(4::int) \<notin> {0..3}" by simp
  with t4 have i4: "recoverPubKey curve11 1 \<lparr>sig_r = 6, sig_s = 3\<rparr> 4 = Inl InputValidation"
    by blast
  have "sig_s \<lparr>sig_r = 6, sig_s = 7\<rparr> \<notin> {0<..<curve_n curve11}"
    using n by simp
  with t7 have i7: "recoverPubKey curve11 1 \<lparr>sig_r = 6, sig_s = 7\<rparr> 1 = Inl InputValidation"
    by blast
  from a s1 rng eneg i4 i7 b show ?thesis by blast
qed

text \<open>
  C7.  \<open>calcPubKeyRecoveryParam\<close> does not always end with \<open>RecoveryNotFound\<close> when no
  recovery id reproduces \<open>Q\<close>.  On the curve modulo 11, for \<open>e = 1\<close>, the signature
  \<open>(6, 1)\<close> and the point \<open>Q = (7, 10)\<close>, no id reproduces \<open>Q\<close>: id 0 fails the validation of
  the recovered point (it is the point at infinity), id 1 recovers \<open>(10, 9)\<close>, ids 2 and 3
  fail the check of \<open>n\<cdot>R\<close>.  The failure of id 0 leaves the loop, and the call fails with
  \<open>InvalidCurvePoint\<close>.
\<close>

theorem calcPubKeyRecoveryParam_error_counterexample:
  "calcPubKeyRecoveryParam curve11 1 \<lparr>sig_r = 6, sig_s = 1\<rparr> (Affine 7 10) = Inl InvalidCurvePoint
   \<and> recoverPubKey curve11 1 \<lparr>sig_r = 6, sig_s = 1\<rparr> 0 = Inl InvalidCurvePoint
   \<and> recoverPubKey curve11 1 \<lparr>sig_r = 6, sig_s = 1\<rparr> 1 = Inr (Affine 10 9)
   \<and> \<not> pt_equals curve11 (Affine 10 9) (Affine 7 10)
   \<and> recoverPubKey curve11 1 \<lparr>sig_r = 6, sig_s = 1\<rparr> 2 = Inl RecoveryFailure
   \<and> recoverPubKey curve11 1 \<lparr>sig_r = 6, sig_s = 1\<rparr> 3 = Inl RecoveryFailure"
  by code_simp

text \<open>
  C7, as amended.  \<open>calcPubKeyRecoveryParam\<close> tries the recovery ids 0, 1, 2, 3 in this
  order, computing \<open>recoverPubKey\<close> for each, and returns the first id whose recovered point
  \<open>equals\<close> finds equal to \<open>Q\<close>, provided \<open>recoverPubKey\<close> returned a point for every id
  tried before it; and the call fails with \<open>RecoveryNotFound\<close> exactly when \<open>recoverPubKey\<close>
  returns a point for each of the four ids and none of them equals \<open>Q\<close>.  (The first
  conjunct also shows where the call ends otherwise: at the first id for which
  \<open>recoverPubKey\<close> raises before a match, with that error.)
\<close>

theorem calcPubKeyRecoveryParam_cases:
  "calcPubKeyRecoveryParam C e sg Q =
     (case recoverPubKey C e sg 0 of
        Inl err \<Rightarrow> Inl err
      | Inr Q0 \<Rightarrow>
          if pt_equals C Q0 Q then Inr 0
          else case recoverPubKey C e sg 1 of
            Inl err \<Rightarrow> Inl err
          | Inr Q1 \<Rightarrow>
              if pt_equals C Q1 Q then Inr 1
              else case recoverPubKey C e sg 2 of
                Inl err \<Rightarrow> Inl err
              | Inr Q2 \<Rightarrow>
                  if pt_equals C Q2 Q then Inr 2
                  else case recoverPubKey C e sg 3 of
                    Inl err \<Rightarrow> Inl err
                  | Inr Q3 \<Rightarrow> if pt_equals C Q3 Q then Inr 3 else Inl RecoveryNotFound)
   \<and> ((calcPubKeyRecoveryParam C e sg Q = Inl RecoveryNotFound) =
        (\<exists>Q0 Q1 Q2 Q3.
           recoverPubKey C e sg 0 = Inr Q0 \<and> \<not> pt_equals C Q0 Q
         \<and> recoverPubKey C e sg 1 = Inr Q1 \<and> \<not> pt_equals C Q1 Q
         \<and> recoverPubKey C e sg 2 = Inr Q2 \<and> \<not> pt_equals C Q2 Q
         \<and> recoverPubKey C e sg 3 = Inr Q3 \<and> \<not> pt_equals C Q3 Q))"
proof
  show "calcPubKeyRecoveryParam C e sg Q =
     (case recoverPubKey C e sg 0 of
        Inl err \<Rightarrow> Inl err
      | Inr Q0 \<Rightarrow>
          if pt_equals C Q0 Q then Inr 0
          else case recoverPubKey C e sg 1 of
            Inl err \<Rightarrow> Inl err
          | Inr Q1 \<Rightarrow>
              if pt_equals C Q1 Q then Inr 1
              else case recoverPubKey C e sg 2 of
                Inl err \<Rightarrow> Inl err
              | Inr Q2 \<Rightarrow>
                  if pt_equals C Q2 Q then Inr 2
                  else case recoverPubKey C e sg 3 of
                    Inl err \<Rightarrow> Inl err
                  | Inr Q3 \<Rightarrow> if pt_equals C Q3 Q then Inr 3 else Inl RecoveryNotFound)"
    by (rule calcPubKeyRecoveryParam_unrolled)
next
  have nf: "\<And>i. recoverPubKey C e sg i \<noteq> Inl RecoveryNotFound"
    by (rule recoverPubKey_not_RecoveryNotFound)
  show "(calcPubKeyRecoveryParam C e sg Q = Inl RecoveryNotFound) =
        (\<exists>Q0 Q1 Q2 Q3.
           recoverPubKey C e sg 0 = Inr Q0 \<and> \<not> pt_equals C Q0 Q
         \<and> recoverPubKey C e sg 1 = Inr Q1 \<and> \<not> pt_equals C Q1 Q
         \<and> recoverPubKey C e sg 2 = Inr Q2 \<and> \<not> pt_equals C Q2 Q
         \<and> recoverPubKey C e sg 3 = Inr Q3 \<and> \<not> pt_equals C Q3 Q)"
    unfolding calcPubKeyRecoveryParam_unrolled
    using nf[of 0] nf[of 1] nf[of 2] nf[of 3]
    by (auto split: sum.splits)
qed

theorem calcPubKeyRecoveryParam_cases_witness:
  "calcPubKeyRecoveryParam curve43 1 \<lparr>sig_r = 7, sig_s = 5\<rparr> (Affine 2 12) = Inl RecoveryNotFound
   \<and> recoverPubKey curve43 1 \<lparr>sig_r = 7, sig_s = 5\<rparr> 0 = Inr (Affine 29 12)
   \<and> recoverPubKey curve43 1 \<lparr>sig_r = 7, sig_s = 5\<rparr> 1 = Inr (Affine 37 7)
   \<and> recoverPubKey curve43 1 \<lparr>sig_r = 7, sig_s = 5\<rparr> 2 = Inr (Affine 7 36)
   \<and> recoverPubKey curve43 1 \<lparr>sig_r = 7, sig_s = 5\<rparr> 3 = Inr (Affine 38 21)
   \<and> calcPubKeyRecoveryParam curve43 1 \<lparr>sig_r = 7, sig_s = 5\<rparr> (Affine 7 36) = Inr 2"
proof -
  have r0: "recoverPubKey curve43 1 \<lparr>sig_r = 7, sig_s = 5\<rparr> 0 = Inr (Affine 29 12)" by code_simp
  have r1: "recoverPubKey curve43 1 \<lparr>sig_r = 7, sig_s = 5\<rparr> 1 = Inr (Affine 37 7)" by code_simp
  have r2: "recoverPubKey curve43 1 \<lparr>sig_r = 7, sig_s = 5\<rparr> 2 = Inr (Affine 7 36)" by code_simp
  have r3: "recoverPubKey curve43 1 \<lparr>sig_r = 7, sig_s = 5\<rparr> 3 = Inr (Affine 38 21)" by code_simp
  have ne: "\<not> pt_equals curve43 (Affine 29 12) (Affine 2 12)"
    "\<not> pt_equals curve43 (Affine 37 7) (Affine 2 12)"
    "\<not> pt_equals curve43 (Affine 7 36) (Affine 2 12)"
    "\<not> pt_equals curve43 (Affine 38 21) (Affine 2 12)"
    "\<not> pt_equals curve43 (Affine 29 12) (Affine 7 36)"
    "\<not> pt_equals curve43 (Affine 37 7) (Affine 7 36)"
    "pt_equals curve43 (Affine 7 36) (Affine 7 36)"
    by code_simp+
  from r0 r1 r2 r3 ne
    calcPubKeyRecoveryParam_cases[of curve43 1 "\<lparr>sig_r = 7, sig_s = 5\<rparr>" "Affine 2 12"]
    calcPubKeyRecoveryParam_cases[of curve43 1 "\<lparr>sig_r = 7, sig_s = 5\<rparr>" "Affine 7 36"]
  show ?thesis by simp
qed

end
